theory Spec2Isabelle
  imports Complex_Main "HOL-Library.Monad_Syntax" "HOL-Library.AList"
begin

section \<open>JavaScript values\<close>

text \<open>
  The storage module works on dynamically typed values: whatever \<^verbatim>\<open>JSON.parse\<close>
  returns from a slot of \<^verbatim>\<open>localStorage\<close>, and whatever a caller passes in. A value is
  \<^verbatim>\<open>undefined\<close>, \<^verbatim>\<open>null\<close>, a boolean, a number, a string, an array or a plain object.
  A number is a finite value, an infinity or NaN; finite values are exact rationals, which
  agrees with IEEE doubles on every integer below \<open>2^53\<close> (rounding and overflow of doubles
  are outside the model). An object is the list of its own properties in insertion order;
  a property is read with \<open>map_of\<close>, so the first entry of a name is the one that counts.
  A thrown exception (every one in this module is a \<^verbatim>\<open>TypeError\<close>) is the value \<open>None\<close>.
\<close>

datatype jsnum = Fin rat | PInf | NInf | NaN

datatype jsval =
    JUndef
  | JNull
  | JBool bool
  | JNum jsnum
  | JStr string
  | JArr "jsval list"
  | JObj "(string \<times> jsval) list"

text \<open>
  What the module takes from outside itself: \<^verbatim>\<open>getPlayerKey\<close>, imported from
  \<^verbatim>\<open>./player-key.js\<close> (a function of the \<^verbatim>\<open>Type\<close> and \<^verbatim>\<open>Name\<close> it is called with), and the
  two conversions of the language between numbers and strings. All three are parameters of the model: the
  theorems hold for every choice of them.
\<close>

record host =
  getPlayerKey :: "jsval \<Rightarrow> jsval \<Rightarrow> string"
  numberToString :: "jsnum \<Rightarrow> string"
  stringToNumber :: "string \<Rightarrow> jsnum"

subsection \<open>Strings\<close>

text \<open>\<^verbatim>\<open>trim\<close> and \<^verbatim>\<open>toLowerCase\<close> on ASCII text.\<close>

definition isWhite :: "char \<Rightarrow> bool" where
  "isWhite c = (c \<in> set [CHR '' '', CHR 0x09, CHR 0x0A, CHR 0x0B, CHR 0x0C, CHR 0x0D])"

definition trim :: "string \<Rightarrow> string" where
  "trim s = rev (dropWhile isWhite (rev (dropWhile isWhite s)))"

definition lowerChar :: "char \<Rightarrow> char" where
  "lowerChar c =
     (let n = (of_char c :: nat) in if 65 \<le> n \<and> n \<le> 90 then char_of (n + 32) else c)"

definition toLowerCase :: "string \<Rightarrow> string" where
  "toLowerCase s = map lowerChar s"

fun join :: "string \<Rightarrow> string list \<Rightarrow> string" where
  "join sep [] = []"
| "join sep [x] = x"
| "join sep (x # y # ys) = x @ sep @ join sep (y # ys)"

fun showNat :: "nat \<Rightarrow> string" where
  "showNat n =
     (if n < 10 then [char_of (48 + n)]
      else showNat (n div 10) @ [char_of (48 + n mod 10)])"

declare showNat.simps [simp del]

subsection \<open>Conversions and operators\<close>

fun isNullish :: "jsval \<Rightarrow> bool" where
  "isNullish JUndef = True"
| "isNullish JNull = True"
| "isNullish _ = False"

text \<open>\<^verbatim>\<open>a ?? b\<close>\<close>

definition nullish :: "jsval \<Rightarrow> jsval \<Rightarrow> jsval" where
  "nullish a b = (if isNullish a then b else a)"

text \<open>\<^verbatim>\<open>Boolean(v)\<close>, \<^verbatim>\<open>!!v\<close>\<close>

fun truthy :: "jsval \<Rightarrow> bool" where
  "truthy JUndef = False"
| "truthy JNull = False"
| "truthy (JBool b) = b"
| "truthy (JNum (Fin q)) = (q \<noteq> 0)"
| "truthy (JNum NaN) = False"
| "truthy (JNum _) = True"
| "truthy (JStr s) = (s \<noteq> [])"
| "truthy (JArr _) = True"
| "truthy (JObj _) = True"

text \<open>\<^verbatim>\<open>a || b\<close>\<close>

definition orElse :: "jsval \<Rightarrow> jsval \<Rightarrow> jsval" where
  "orElse a b = (if truthy a then a else b)"

text \<open>
  \<^verbatim>\<open>a === b\<close>. Every comparison of the module has a value decoded from storage or a
  string on one side, so two arrays or objects are never the same reference.
\<close>

fun strictEq :: "jsval \<Rightarrow> jsval \<Rightarrow> bool" where
  "strictEq JUndef JUndef = True"
| "strictEq JNull JNull = True"
| "strictEq (JBool a) (JBool b) = (a = b)"
| "strictEq (JNum NaN) (JNum _) = False"
| "strictEq (JNum a) (JNum b) = (a = b)"
| "strictEq (JStr a) (JStr b) = (a = b)"
| "strictEq _ _ = False"

text \<open>
  The own enumerable properties of a value, as the spread \<^verbatim>\<open>{ ...v }\<close> copies them:
  the index properties of an array or a string, the properties of an object, none of the
  other values.
\<close>

fun ownProps :: "jsval \<Rightarrow> (string \<times> jsval) list" where
  "ownProps (JObj kvs) = kvs"
| "ownProps (JArr xs) = zip (map showNat [0..<length xs]) xs"
| "ownProps (JStr s) = zip (map showNat [0..<length s]) (map (\<lambda>c. JStr [c]) s)"
| "ownProps _ = []"

text \<open>
  \<^verbatim>\<open>v.k\<close> for a value that is neither \<^verbatim>\<open>null\<close> nor \<^verbatim>\<open>undefined\<close>. The names the module
  reads are fixed identifiers, none of them \<^verbatim>\<open>length\<close> or a member of a prototype, so a
  name that is not an own property reads \<^verbatim>\<open>undefined\<close>.
\<close>

definition field :: "jsval \<Rightarrow> string \<Rightarrow> jsval" where
  "field v k = (case map_of (ownProps v) k of None \<Rightarrow> JUndef | Some x \<Rightarrow> x)"

text \<open>\<^verbatim>\<open>v.k\<close>: a \<^verbatim>\<open>TypeError\<close> on \<^verbatim>\<open>null\<close> and \<^verbatim>\<open>undefined\<close>.\<close>

definition getProp :: "jsval \<Rightarrow> string \<Rightarrow> jsval option" where
  "getProp v k = (if isNullish v then None else Some (field v k))"

text \<open>\<^verbatim>\<open>v?.k\<close>\<close>

definition optProp :: "jsval \<Rightarrow> string \<Rightarrow> jsval" where
  "optProp v k = (if isNullish v then JUndef else field v k)"

text \<open>
  \<^verbatim>\<open>String(v)\<close>. An array is joined with commas, its \<^verbatim>\<open>null\<close> and \<^verbatim>\<open>undefined\<close>
  elements as empty strings. A plain object prints as \<^verbatim>\<open>[object Object]\<close> through
  \<^verbatim>\<open>Object.prototype.toString\<close>, unless it has an own property \<^verbatim>\<open>toString\<close>: a decoded
  value is never callable, \<^verbatim>\<open>valueOf\<close> does not return a primitive either, and the
  conversion throws.
\<close>

fun String_js :: "host \<Rightarrow> jsval \<Rightarrow> string option" where
  "String_js H JUndef = Some ''undefined''"
| "String_js H JNull = Some ''null''"
| "String_js H (JBool b) = Some (if b then ''true'' else ''false'')"
| "String_js H (JNum n) = Some (numberToString H n)"
| "String_js H (JStr s) = Some s"
| "String_js H (JArr xs) =
     map_option (join '','')
       (those (map (\<lambda>x. if isNullish x then Some [] else String_js H x) xs))"
| "String_js H (JObj kvs) =
     (if ''toString'' \<in> fst ` set kvs then None else Some ''[object Object]'')"

text \<open>\<^verbatim>\<open>Number(v)\<close>: an array or object is converted to a string first.\<close>

fun Number_js :: "host \<Rightarrow> jsval \<Rightarrow> jsnum option" where
  "Number_js H JUndef = Some NaN"
| "Number_js H JNull = Some (Fin 0)"
| "Number_js H (JBool b) = Some (Fin (if b then 1 else 0))"
| "Number_js H (JNum n) = Some n"
| "Number_js H (JStr s) = Some (stringToNumber H s)"
| "Number_js H v = map_option (stringToNumber H) (String_js H v)"

text \<open>\<^verbatim>\<open>Number.isFinite\<close>, \<^verbatim>\<open>Math.trunc\<close> of a finite number\<close>

fun isFinite :: "jsnum \<Rightarrow> bool" where
  "isFinite (Fin _) = True"
| "isFinite _ = False"

definition trunc :: "rat \<Rightarrow> int" where
  "trunc q = (if 0 \<le> q then \<lfloor>q\<rfloor> else \<lceil>q\<rceil>)"

text \<open>A finite integer as a value.\<close>

definition JInt :: "int \<Rightarrow> jsval" where
  "JInt i = JNum (Fin (of_int i))"

subsection \<open>Object construction\<close>

text \<open>
  \<^verbatim>\<open>o.k = v\<close> on an object, and the members \<^verbatim>\<open>k: v\<close> and \<^verbatim>\<open>...src\<close> of an object
  literal: an existing property keeps its place, a new one goes last.
\<close>

definition setProp :: "string \<Rightarrow> jsval \<Rightarrow> (string \<times> jsval) list \<Rightarrow> (string \<times> jsval) list" where
  "setProp k v kvs = AList.update k v kvs"

definition spread :: "jsval \<Rightarrow> (string \<times> jsval) list \<Rightarrow> (string \<times> jsval) list" where
  "spread src kvs = fold (\<lambda>(k, v). setProp k v) (AList.clearjunk (ownProps src)) kvs"


text \<open>Loops whose body may throw.\<close>

fun foldM :: "('b \<Rightarrow> 'a \<Rightarrow> 'b option) \<Rightarrow> 'a list \<Rightarrow> 'b \<Rightarrow> 'b option" where
  "foldM f [] acc = Some acc"
| "foldM f (x # xs) acc = (case f acc x of None \<Rightarrow> None | Some acc' \<Rightarrow> foldM f xs acc')"

text \<open>\<^verbatim>\<open>xs.find(P)\<close>: the first element that satisfies \<open>P\<close>, if any.\<close>

fun findM :: "('a \<Rightarrow> bool option) \<Rightarrow> 'a list \<Rightarrow> 'a option option" where
  "findM P [] = Some None"
| "findM P (x # xs) =
     (case P x of None \<Rightarrow> None
      | Some b \<Rightarrow> if b then Some (Some x) else findM P xs)"

text \<open>\<^verbatim>\<open>xs.findIndex(P)\<close>: \<open>None\<close> inside stands for \<open>-1\<close>.\<close>

fun findIndexM :: "('a \<Rightarrow> bool option) \<Rightarrow> 'a list \<Rightarrow> nat option option" where
  "findIndexM P [] = Some None"
| "findIndexM P (x # xs) =
     (case P x of None \<Rightarrow> None
      | Some b \<Rightarrow> if b then Some (Some 0) else map_option (map_option Suc) (findIndexM P xs))"

text \<open>A method of arrays called on a value: a \<^verbatim>\<open>TypeError\<close> unless the value is an array.\<close>

fun asArray :: "jsval \<Rightarrow> jsval list option" where
  "asArray (JArr xs) = Some xs"
| "asArray _ = None"

text \<open>\<^verbatim>\<open>(r) => r.id === id\<close>\<close>

definition idIs :: "jsval \<Rightarrow> jsval \<Rightarrow> bool option" where
  "idIs k r = map_option (\<lambda>v. strictEq v k) (getProp r ''id'')"

section \<open>Storage\<close>

text \<open>
  A slot of \<^verbatim>\<open>localStorage\<close> is empty (\<^verbatim>\<open>getItem\<close> returns \<^verbatim>\<open>null\<close> or the empty
  string), holds text that \<^verbatim>\<open>JSON.parse\<close> rejects, or holds the text of a value.
\<close>

datatype slot = Empty | Garbled | Json jsval

type_synonym storage = "string \<Rightarrow> slot"

definition load :: "storage \<Rightarrow> string \<Rightarrow> jsval \<Rightarrow> jsval" where
  "load st key fallback = (case st key of Json v \<Rightarrow> v | _ \<Rightarrow> fallback)"

text \<open>
  What \<^verbatim>\<open>JSON.parse\<close> reads back from \<^verbatim>\<open>JSON.stringify(v)\<close>: a property whose value is
  \<^verbatim>\<open>undefined\<close> is left out, \<^verbatim>\<open>undefined\<close> in an array and every number that is not finite
  become \<^verbatim>\<open>null\<close>.
\<close>

fun jsonOf :: "jsval \<Rightarrow> jsval" where
  "jsonOf JUndef = JNull"
| "jsonOf JNull = JNull"
| "jsonOf (JBool b) = JBool b"
| "jsonOf (JNum (Fin q)) = JNum (Fin q)"
| "jsonOf (JNum _) = JNull"
| "jsonOf (JStr s) = JStr s"
| "jsonOf (JArr xs) = JArr (map jsonOf xs)"
| "jsonOf (JObj kvs) =
     JObj (List.map_filter (\<lambda>(k, w). map_option (Pair k) w)
       (AList.clearjunk
         (map (\<lambda>(k, v). (k, if v = JUndef then None else Some (jsonOf v))) kvs)))"

text \<open>
  \<^verbatim>\<open>localStorage.setItem(key, JSON.stringify(value))\<close>. \<^verbatim>\<open>JSON.stringify(undefined)\<close> is
  \<^verbatim>\<open>undefined\<close>, stored as the text \<^verbatim>\<open>undefined\<close>, which does not parse.
\<close>

definition save :: "string \<Rightarrow> jsval \<Rightarrow> storage \<Rightarrow> storage" where
  "save key v st = st(key := (if v = JUndef then Garbled else Json (jsonOf v)))"

section \<open>Settings\<close>

definition weightKeys :: "string list" where
  "weightKeys = [''AVG'', ''OPS'', ''TB'', ''HR'', ''RBI'', ''R'', ''SB'',
                 ''ERA'', ''WHIP'', ''IP'', ''QS'', ''K'', ''SV'', ''HLD'']"

definition DEFAULT_WEIGHTS :: "(string \<times> jsval) list" where
  "DEFAULT_WEIGHTS = map (\<lambda>k. (k, JNum (Fin 1))) weightKeys"

text \<open>
  \<^verbatim>\<open>migrateWeights\<close>, on the properties of the object it is given. Its one caller passes
  a fresh plain object, so the guard for a value that is not an object is never taken.
\<close>

definition migrateWeights :: "(string \<times> jsval) list \<Rightarrow> (string \<times> jsval) list" where
  "migrateWeights obj =
     (if isNullish (field (JObj obj) ''SB'') \<and> \<not> isNullish (field (JObj obj) ''SBN'')
      then AList.delete ''SBN'' (setProp ''SB'' (field (JObj obj) ''SBN'') obj)
      else obj)"

text \<open>\<^verbatim>\<open>typeof v === "object"\<close>\<close>

fun typeofObject :: "jsval \<Rightarrow> bool" where
  "typeofObject JNull = True"
| "typeofObject (JArr _) = True"
| "typeofObject (JObj _) = True"
| "typeofObject _ = False"

fun weightsLoop ::
  "host \<Rightarrow> (string \<times> jsval) list \<Rightarrow> string list \<Rightarrow> (string \<times> jsval) list
     \<Rightarrow> (string \<times> jsval) list option" where
  "weightsLoop H obj [] out = Some out"
| "weightsLoop H obj (k # ks) out =
     (case Number_js H (field (JObj obj) k) of
        None \<Rightarrow> None
      | Some n \<Rightarrow>
          weightsLoop H obj ks
            (setProp k (if isFinite n then JNum n else field (JObj DEFAULT_WEIGHTS) k) out))"

definition normalizeCategoryWeights :: "host \<Rightarrow> jsval \<Rightarrow> (string \<times> jsval) list option" where
  "normalizeCategoryWeights H partial =
     (let obj = migrateWeights
                  (if truthy partial \<and> typeofObject partial then spread partial [] else [])
      in weightsLoop H obj (map fst DEFAULT_WEIGHTS) (spread (JObj DEFAULT_WEIGHTS) []))"

definition defaultSettings :: jsval where
  "defaultSettings = JObj
     [(''budget_total'', JInt 300),
      (''budget_remaining'', JInt 300),
      (''hitter_slots_total'', JInt 14),
      (''pitcher_slots_total'', JInt 9),
      (''category_weights'', JObj (spread (JObj DEFAULT_WEIGHTS) [])),
      (''category_weights_updated_at'', JNull),
      (''value_mode'', JStr ''proj'')]"

text \<open>
  \<^verbatim>\<open>getSettings\<close> returns the settings object as its own properties: the module only
  reads them by name and spreads them. Reading \<^verbatim>\<open>s.category_weights\<close> throws when the
  slot holds \<^verbatim>\<open>null\<close>; assigning it throws when the slot holds a boolean, a number or a
  string (the module is strict code).
\<close>

definition getSettings :: "host \<Rightarrow> storage \<Rightarrow> (string \<times> jsval) list option" where
  "getSettings H st =
     (let s = load st ''hag_settings'' defaultSettings in
      case getProp s ''category_weights'' of
        None \<Rightarrow> None
      | Some cw \<Rightarrow>
          (case normalizeCategoryWeights H cw of
             None \<Rightarrow> None
           | Some w \<Rightarrow>
               (case s of
                  JObj kvs \<Rightarrow> Some (setProp ''category_weights'' (JObj w) kvs)
                | JArr xs \<Rightarrow> Some (setProp ''category_weights'' (JObj w) (ownProps s))
                | _ \<Rightarrow> None)))"

definition setSettings :: "host \<Rightarrow> jsval \<Rightarrow> storage \<Rightarrow> storage option" where
  "setSettings H next st =
     (case getSettings H st of
        None \<Rightarrow> None
      | Some prev \<Rightarrow>
          (let merged = spread (orElse next (JObj [])) (spread (JObj prev) []) in
           case normalizeCategoryWeights H (field (JObj merged) ''category_weights'') of
             None \<Rightarrow> None
           | Some w \<Rightarrow>
               Some (save ''hag_settings''
                      (JObj (setProp ''category_weights'' (JObj w) merged)) st)))"

section \<open>Roster and contracts\<close>

definition ROSTER_KEY :: string where
  "ROSTER_KEY = ''hag_roster_v1''"

text \<open>The object \<^verbatim>\<open>normalizeRosterPlayer\<close> returns: nine properties of fixed types.\<close>

record rosterPlayer =
  playerId :: string
  name :: string
  playerType :: string
  team :: string
  pos :: string
  underContract :: bool
  contractYear :: int
  contractTotal :: int
  price :: int

definition toJS :: "rosterPlayer \<Rightarrow> jsval" where
  "toJS r = JObj
     [(''id'', JStr (playerId r)),
      (''name'', JStr (name r)),
      (''type'', JStr (playerType r)),
      (''team'', JStr (team r)),
      (''pos'', JStr (pos r)),
      (''underContract'', JBool (underContract r)),
      (''contractYear'', JInt (contractYear r)),
      (''contractTotal'', JInt (contractTotal r)),
      (''price'', JInt (price r))]"

definition toInt :: "host \<Rightarrow> jsval \<Rightarrow> int \<Rightarrow> int option" where
  "toInt H val fallback =
     map_option (\<lambda>n. case n of Fin q \<Rightarrow> trunc q | _ \<Rightarrow> fallback) (Number_js H val)"

definition clampInt :: "host \<Rightarrow> jsval \<Rightarrow> int \<Rightarrow> int \<Rightarrow> int option" where
  "clampInt H n mn mx = map_option (\<lambda>x. max mn (min mx x)) (toInt H n mn)"

definition normalizeRosterPlayer :: "host \<Rightarrow> jsval \<Rightarrow> rosterPlayer option" where
  "normalizeRosterPlayer H p =
     (if isNullish p then None
      else do {
        let under = truthy (field p ''underContract'');
        total \<leftarrow> clampInt H (nullish (field p ''contractTotal'') (JInt 1)) 1 10;
        year \<leftarrow> clampInt H (nullish (field p ''contractYear'') (JInt 1)) 1 total;
        pr \<leftarrow> toInt H (nullish (field p ''price'') (JInt 0)) 0;
        ids \<leftarrow> String_js H (field p ''id'');
        nm \<leftarrow> String_js H (nullish (field p ''name'') (JStr []));
        tm \<leftarrow> String_js H (nullish (field p ''team'') (JStr []));
        ps \<leftarrow> String_js H (nullish (field p ''pos'') (JStr []));
        Some \<lparr> playerId = ids,
               name = nm,
               playerType =
                 (if strictEq (field p ''type'') (JStr ''hit'') \<or>
                     strictEq (field p ''type'') (JStr ''pit'')
                  then (case field p ''type'' of JStr t \<Rightarrow> t | _ \<Rightarrow> ''hit'')
                  else ''hit''),
               team = tm,
               pos = ps,
               underContract = under,
               contractYear = year,
               contractTotal = total,
               price = max 0 pr \<rparr>
      })"

text \<open>
  The body of the loop of \<^verbatim>\<open>getRoster\<close>. \<open>byId\<close> is the \<^verbatim>\<open>Map\<close>: keys in insertion
  order, a key that is set again keeps its place. \<open>r\<close> is a normalized record, whose
  \<^verbatim>\<open>type\<close> and \<^verbatim>\<open>name\<close> are strings, so the fallbacks \<^verbatim>\<open>r.Type\<close>, \<^verbatim>\<open>r.Name\<close> and \<^verbatim>\<open>""\<close> of
  the source are never reached.
\<close>

definition mergePlayers :: "host \<Rightarrow> rosterPlayer \<Rightarrow> rosterPlayer \<Rightarrow> string \<Rightarrow> string \<Rightarrow> string
    \<Rightarrow> rosterPlayer option" where
  "mergePlayers H prev r nextId ty nm =
     (let p = toJS prev; q = toJS r in do {
        ny \<leftarrow> Number_js H (field p ''contractYear'');
        nt \<leftarrow> Number_js H (field p ''contractTotal'');
        np \<leftarrow> Number_js H (field p ''price'');
        normalizeRosterPlayer H (JObj
          (setProp ''price'' (if isFinite np then field p ''price'' else field q ''price'')
          (setProp ''contractTotal''
             (if isFinite nt then field p ''contractTotal'' else field q ''contractTotal'')
          (setProp ''contractYear''
             (if isFinite ny then field p ''contractYear'' else field q ''contractYear'')
          (setProp ''underContract'' (JBool (underContract prev \<or> underContract r))
          (setProp ''name'' (JStr nm)
          (setProp ''type'' (JStr ty)
          (setProp ''id'' (JStr nextId)
          (spread q (spread p []))))))))))
      })"

definition migrateStep ::
  "host \<Rightarrow> (string \<times> rosterPlayer) list \<Rightarrow> jsval \<Rightarrow> (string \<times> rosterPlayer) list option" where
  "migrateStep H byId raw = do {
     r \<leftarrow> normalizeRosterPlayer H raw;
     let typeRaw = toLowerCase (trim (playerType r));
     let ty = (if typeRaw = ''pit'' then ''pit'' else ''hit'');
     let nm = trim (name r);
     let nextId = getPlayerKey H (JStr ty) (JStr nm);
     case map_of byId nextId of
       None \<Rightarrow> Some (AList.update nextId (r\<lparr>playerId := nextId, playerType := ty, name := nm\<rparr>) byId)
     | Some prev \<Rightarrow>
         map_option (\<lambda>m. AList.update nextId m byId) (mergePlayers H prev r nextId ty nm)
   }"

definition setRoster :: "jsval \<Rightarrow> storage \<Rightarrow> storage" where
  "setRoster next st = save ROSTER_KEY next st"

text \<open>
  \<^verbatim>\<open>migrated.length !== roster.length || migrated.some((r, i) => r.id !== roster[i]?.id)\<close>:
  the second disjunct is evaluated only when the lengths agree.
\<close>

definition rosterChanged :: "rosterPlayer list \<Rightarrow> jsval list \<Rightarrow> bool" where
  "rosterChanged migrated roster =
     (length migrated \<noteq> length roster \<or>
      list_ex (\<lambda>(r, raw). \<not> strictEq (JStr (playerId r)) (optProp raw ''id''))
        (zip migrated roster))"

definition getRoster :: "host \<Rightarrow> storage \<Rightarrow> (jsval \<times> storage) option" where
  "getRoster H st =
     (let roster = load st ROSTER_KEY (JArr []) in
      case roster of
        JArr (x # xs) \<Rightarrow>
          (case foldM (migrateStep H) (x # xs) [] of
             None \<Rightarrow> None
           | Some byId \<Rightarrow>
               (let migrated = map snd byId
                in Some (JArr (map toJS migrated),
                         if rosterChanged migrated (x # xs)
                         then setRoster (JArr (map toJS migrated)) st else st)))
      | _ \<Rightarrow> Some (roster, st))"

text \<open>\<^verbatim>\<open>String(csvPlayer?.K ?? "").trim()\<close>\<close>

definition csvField :: "host \<Rightarrow> jsval \<Rightarrow> string \<Rightarrow> string option" where
  "csvField H csvPlayer k =
     map_option trim (String_js H (nullish (optProp csvPlayer k) (JStr [])))"

definition addToRosterFromCsv :: "host \<Rightarrow> jsval \<Rightarrow> storage \<Rightarrow> (rosterPlayer \<times> storage) option" where
  "addToRosterFromCsv H csvPlayer st = do {
     (roster, st1) \<leftarrow> getRoster H st;
     typeRaw \<leftarrow> map_option toLowerCase (csvField H csvPlayer ''Type'');
     let ty = (if typeRaw = ''pit'' then ''pit'' else ''hit'');
     nm \<leftarrow> csvField H csvPlayer ''Name'';
     tm \<leftarrow> csvField H csvPlayer ''Team'';
     ps \<leftarrow> csvField H csvPlayer ''POS'';
     let idk = getPlayerKey H (JStr ty) (JStr nm);
     rs \<leftarrow> asArray roster;
     found \<leftarrow> findM (idIs (JStr idk)) rs;
     case found of
       Some existing \<Rightarrow> do {
         merged \<leftarrow> normalizeRosterPlayer H (JObj
           (setProp ''type'' (orElse (field existing ''type'') (JStr ty))
           (setProp ''pos'' (orElse (field existing ''pos'') (JStr ps))
           (setProp ''team'' (orElse (field existing ''team'') (JStr tm))
           (setProp ''name'' (orElse (field existing ''name'') (JStr nm))
           (spread existing []))))));
         next \<leftarrow> those (map (\<lambda>r. map_option (\<lambda>b. if b then toJS merged else r)
                                   (idIs (JStr idk) r)) rs);
         Some (merged, setRoster (JArr next) st1)
       }
     | None \<Rightarrow> do {
         created \<leftarrow> normalizeRosterPlayer H (JObj
           [(''id'', JStr idk),
            (''name'', JStr nm),
            (''type'', JStr (if ty = ''pit'' then ''pit'' else ''hit'')),
            (''team'', JStr tm),
            (''pos'', JStr ps),
            (''underContract'', JBool False),
            (''contractYear'', JInt 1),
            (''contractTotal'', JInt 1),
            (''price'', JInt 0)]);
         Some (created, setRoster (JArr (toJS created # rs)) st1)
       }
   }"

section \<open>Auction targets\<close>

definition AUCTION_KEY :: string where
  "AUCTION_KEY = ''hag_auction_targets_v1''"

definition loadAuctionTargets :: "storage \<Rightarrow> jsval" where
  "loadAuctionTargets st = (case st AUCTION_KEY of Json v \<Rightarrow> v | _ \<Rightarrow> JArr [])"

definition saveAuctionTargets :: "jsval \<Rightarrow> storage \<Rightarrow> storage" where
  "saveAuctionTargets list st = save AUCTION_KEY list st"

section \<open>Budget\<close>

record budget =
  spent :: int
  remaining :: int
  budgetTotal :: int

text \<open>The reducer of \<^verbatim>\<open>contractSpent\<close>.\<close>

definition contractStep :: "host \<Rightarrow> int \<Rightarrow> jsval \<Rightarrow> int option" where
  "contractStep H acc p = do {
     u \<leftarrow> getProp p ''underContract'';
     pr \<leftarrow> toInt H (nullish (field p ''price'') (JInt 0)) 0;
     Some (acc + (if truthy u then max 0 pr else 0))
   }"

text \<open>
  \<^verbatim>\<open>keeperKeys\<close>: the keys of the entries under contract, the empty ones filtered out by
  \<^verbatim>\<open>.filter(Boolean)\<close>.
\<close>

definition keeperKeys :: "host \<Rightarrow> jsval list \<Rightarrow> string list" where
  "keeperKeys H ps =
     filter (\<lambda>k. k \<noteq> [])
       (map (\<lambda>p. getPlayerKey H (field p ''type'') (field p ''name''))
         (filter (\<lambda>p. truthy (field p ''underContract'')) ps))"

text \<open>The reducer of \<^verbatim>\<open>plannedSpent\<close>.\<close>

definition plannedStep :: "host \<Rightarrow> string list \<Rightarrow> int \<Rightarrow> jsval \<Rightarrow> int option" where
  "plannedStep H keys acc t = do {
     pv \<leftarrow> getProp t ''plan'';
     pl \<leftarrow> toInt H (nullish pv (JInt 0)) 0;
     let plan = max 0 pl;
     k \<leftarrow> map_option trim (String_js H (orElse (field t ''player_key'') (JStr [])));
     Some (if plan \<le> 0 then acc
           else if k \<noteq> [] \<and> k \<in> set keys then acc
           else acc + plan)
   }"

text \<open>
  \<^verbatim>\<open>recalcBudgetRemaining\<close>. The event it dispatches sits in a \<^verbatim>\<open>try\<close> with an empty
  \<^verbatim>\<open>catch\<close> and changes neither the storage nor the result: it is not part of the model.
\<close>

definition recalcBudgetRemaining :: "host \<Rightarrow> storage \<Rightarrow> (budget \<times> storage) option" where
  "recalcBudgetRemaining H st = do {
     settings \<leftarrow> getSettings H st;
     (roster, st1) \<leftarrow> getRoster H st;
     ps \<leftarrow> asArray roster;
     contractSpent \<leftarrow> foldM (contractStep H) ps 0;
     let keys = keeperKeys H ps;
     ts \<leftarrow> asArray (loadAuctionTargets st1);
     plannedSpent \<leftarrow> foldM (plannedStep H keys) ts 0;
     let sp = contractSpent + plannedSpent;
     bt \<leftarrow> toInt H (nullish (field (JObj settings) ''budget_total'') (JInt 0)) 0;
     let total = max 0 bt;
     let rem = max 0 (total - sp);
     let nextSettings = setProp ''budget_remaining'' (JInt rem) (spread (JObj settings) []);
     st2 \<leftarrow> setSettings H (JObj nextSettings) st1;
     Some (\<lparr> spent = sp, remaining = rem, budgetTotal = total \<rparr>, st2)
   }"

section \<open>Auction targets: mutators\<close>

text \<open>
  \<^verbatim>\<open>target?.k != null && target?.k !== "" ? Number(target.k) : undefined\<close>\<close>

definition optionalNumber :: "host \<Rightarrow> jsval \<Rightarrow> string \<Rightarrow> jsval option" where
  "optionalNumber H target k =
     (let v = optProp target k in
      if \<not> isNullish v \<and> \<not> strictEq v (JStr [])
      then map_option JNum (Number_js H v) else Some JUndef)"

text \<open>
  \<^verbatim>\<open>addAuctionTarget\<close>. \<open>fresh\<close> is the identifier the host generates
  (\<^verbatim>\<open>crypto.randomUUID()\<close>, or the time and a random number).
\<close>

definition addAuctionTarget ::
  "host \<Rightarrow> string \<Rightarrow> jsval \<Rightarrow> storage \<Rightarrow> (jsval \<times> storage) option" where
  "addAuctionTarget H fresh target st = do {
     let list = loadAuctionTargets st;
     nm \<leftarrow> map_option trim (String_js H (nullish (optProp target ''name'') (JStr [])));
     ty \<leftarrow> map_option (\<lambda>s. toLowerCase (trim s))
             (String_js H (nullish (optProp target ''type'') (JStr ''hit'')));
     plan \<leftarrow> Number_js H (nullish (optProp target ''plan'') (JInt 0));
     mx \<leftarrow> Number_js H (nullish (optProp target ''max'') (JInt 0));
     enforce \<leftarrow> Number_js H (nullish (optProp target ''enforce'') (JInt 0));
     pk \<leftarrow> String_js H
             (orElse (optProp target ''player_key'')
               (orElse (JStr (getPlayerKey H (JStr ty) (JStr nm))) (JStr [])));
     val \<leftarrow> optionalNumber H target ''val'';
     shadow \<leftarrow> optionalNumber H target ''shadow'';
     adj \<leftarrow> optionalNumber H target ''adj'';
     delta \<leftarrow> optionalNumber H target ''delta'';
     let created = JObj
          (setProp ''delta'' delta
          (setProp ''adj'' adj
          (setProp ''shadow'' shadow
          (setProp ''val'' val
          (setProp ''player_key'' (JStr pk)
          (setProp ''notes'' (nullish (optProp target ''notes'') (JStr []))
          (setProp ''enforce'' (JNum enforce)
          (setProp ''max'' (JNum mx)
          (setProp ''plan'' (JNum plan)
          (setProp ''tier'' (nullish (optProp target ''tier'') (JStr ''B''))
          (setProp ''pos'' (nullish (optProp target ''pos'') (JStr []))
          (setProp ''type'' (JStr ty)
          (setProp ''name'' (JStr nm)
          (spread (orElse target (JObj []))
          [(''id'', JStr fresh)]))))))))))))));
     xs \<leftarrow> asArray list;
     let st1 = saveAuctionTargets (JArr (created # xs)) st;
     (b, st2) \<leftarrow> recalcBudgetRemaining H st1;
     Some (created, st2)
   }"

text \<open>The object that \<^verbatim>\<open>updateAuctionTarget\<close> puts in the place of \<open>cur\<close>.\<close>

definition patchedNumber :: "host \<Rightarrow> jsval \<Rightarrow> jsval \<Rightarrow> string \<Rightarrow> jsval option" where
  "patchedNumber H cur patch k =
     (if \<not> strictEq (optProp patch k) JUndef
      then map_option JNum (Number_js H (field patch k)) else Some (field cur k))"

definition patchTarget :: "host \<Rightarrow> jsval \<Rightarrow> jsval \<Rightarrow> jsval option" where
  "patchTarget H cur patch = do {
     plan \<leftarrow> patchedNumber H cur patch ''plan'';
     mx \<leftarrow> patchedNumber H cur patch ''max'';
     enforce \<leftarrow> patchedNumber H cur patch ''enforce'';
     Some (JObj
       (setProp ''enforce'' enforce
       (setProp ''max'' mx
       (setProp ''plan'' plan
       (spread patch (spread cur []))))))
   }"

definition updateAuctionTarget :: "host \<Rightarrow> jsval \<Rightarrow> jsval \<Rightarrow> storage \<Rightarrow> storage option" where
  "updateAuctionTarget H idv patch st = do {
     xs \<leftarrow> asArray (loadAuctionTargets st);
     idx \<leftarrow> findIndexM (idIs idv) xs;
     case idx of
       None \<Rightarrow> Some st
     | Some i \<Rightarrow> do {
         new \<leftarrow> patchTarget H (xs ! i) patch;
         let st1 = saveAuctionTargets (JArr (xs[i := new])) st;
         (b, st2) \<leftarrow> recalcBudgetRemaining H st1;
         Some st2
       }
   }"

text \<open>\<^verbatim>\<open>updateRosterPlayer\<close>: \<open>None\<close> inside stands for the result \<^verbatim>\<open>null\<close>.\<close>

definition updateRosterPlayer ::
  "host \<Rightarrow> string \<Rightarrow> jsval \<Rightarrow> storage \<Rightarrow> (rosterPlayer option \<times> storage) option" where
  "updateRosterPlayer H idk patch st = do {
     (roster, st1) \<leftarrow> getRoster H st;
     rs \<leftarrow> asArray roster;
     idx \<leftarrow> findIndexM (idIs (JStr idk)) rs;
     case idx of
       None \<Rightarrow> Some (None, st1)
     | Some i \<Rightarrow> do {
         updated \<leftarrow> normalizeRosterPlayer H
           (JObj (setProp ''id'' (JStr idk) (spread patch (spread (rs ! i) []))));
         Some (Some updated, setRoster (JArr (rs[i := toJS updated])) st1)
       }
   }"

section \<open>Canonical roster entries\<close>

text \<open>The ranges \<^verbatim>\<open>normalizeRosterPlayer\<close> clamps to.\<close>

definition normalized :: "rosterPlayer \<Rightarrow> bool" where
  "normalized r =
     (1 \<le> contractYear r \<and> contractYear r \<le> contractTotal r \<and> contractTotal r \<le> 10 \<and>
      0 \<le> price r \<and> (playerType r = ''hit'' \<or> playerType r = ''pit''))"

text \<open>
  An entry as \<^verbatim>\<open>getRoster\<close> leaves it: normalized, its name trimmed, its id the key of
  its type and name.
\<close>

definition canonical :: "host \<Rightarrow> rosterPlayer \<Rightarrow> bool" where
  "canonical H r =
     (normalized r \<and> trim (name r) = name r \<and>
      playerId r = getPlayerKey H (JStr (playerType r)) (JStr (name r)))"

definition canonicalMap :: "host \<Rightarrow> (string \<times> rosterPlayer) list \<Rightarrow> bool" where
  "canonicalMap H byId =
     (distinct (map fst byId) \<and> list_all (\<lambda>(k, r). k = playerId r \<and> canonical H r) byId)"

definition canonicalRoster :: "host \<Rightarrow> rosterPlayer list \<Rightarrow> bool" where
  "canonicalRoster H rs = (distinct (map playerId rs) \<and> list_all (canonical H) rs)"

section \<open>Planned spend, in the words of the specification\<close>

text \<open>
  The amount and the join key that the reducer of \<^verbatim>\<open>plannedSpent\<close> reads from a target:
  \<^verbatim>\<open>max(0, toInt(t.plan ?? 0, 0))\<close> and \<^verbatim>\<open>String(t.player_key || "").trim()\<close>.
\<close>

definition targetPlan :: "host \<Rightarrow> jsval \<Rightarrow> int" where
  "targetPlan H t =
     (case toInt H (nullish (field t ''plan'') (JInt 0)) 0 of Some i \<Rightarrow> max 0 i | None \<Rightarrow> 0)"

definition targetKey :: "host \<Rightarrow> jsval \<Rightarrow> string" where
  "targetKey H t =
     (case String_js H (orElse (field t ''player_key'') (JStr [])) of
        Some s \<Rightarrow> trim s | None \<Rightarrow> [])"

text \<open>
  The canonical keys of the roster entries under contract. A key that is the empty string
  identifies nobody and is left out, as \<^verbatim>\<open>.filter(Boolean)\<close> does.
\<close>

definition contractKeys :: "host \<Rightarrow> rosterPlayer list \<Rightarrow> string list" where
  "contractKeys H rs =
     filter (\<lambda>k. k \<noteq> [])
       (map (\<lambda>r. getPlayerKey H (JStr (playerType r)) (JStr (name r)))
         (filter underContract rs))"

section \<open>A record from the CSV\<close>

text \<open>
  The type, the name and the canonical id that \<^verbatim>\<open>addToRosterFromCsv\<close> derives from a
  record, and the entry it returns for an existing entry \<open>x\<close>: the blank ones among the
  name, the team and the position of \<open>x\<close> filled from the record, nothing else changed.
\<close>

definition csvText :: "host \<Rightarrow> jsval \<Rightarrow> string \<Rightarrow> string" where
  "csvText H csvPlayer k = (case csvField H csvPlayer k of Some s \<Rightarrow> s | None \<Rightarrow> [])"

definition csvType :: "host \<Rightarrow> jsval \<Rightarrow> string" where
  "csvType H csvPlayer =
     (if toLowerCase (csvText H csvPlayer ''Type'') = ''pit'' then ''pit'' else ''hit'')"

definition csvKey :: "host \<Rightarrow> jsval \<Rightarrow> string" where
  "csvKey H csvPlayer =
     getPlayerKey H (JStr (csvType H csvPlayer)) (JStr (csvText H csvPlayer ''Name''))"

definition fillBlanks :: "host \<Rightarrow> jsval \<Rightarrow> rosterPlayer \<Rightarrow> rosterPlayer" where
  "fillBlanks H csvPlayer x =
     x\<lparr> name := (if name x = [] then csvText H csvPlayer ''Name'' else name x),
        team := (if team x = [] then csvText H csvPlayer ''Team'' else team x),
        pos := (if pos x = [] then csvText H csvPlayer ''POS'' else pos x) \<rparr>"

definition createdFromCsv :: "host \<Rightarrow> jsval \<Rightarrow> rosterPlayer" where
  "createdFromCsv H csvPlayer =
     \<lparr> playerId = csvKey H csvPlayer,
       name = csvText H csvPlayer ''Name'',
       playerType = csvType H csvPlayer,
       team = csvText H csvPlayer ''Team'',
       pos = csvText H csvPlayer ''POS'',
       underContract = False, contractYear = 1, contractTotal = 1, price = 0 \<rparr>"

text \<open>
  The one thing the two-call property needs from \<^verbatim>\<open>getPlayerKey\<close>: a hitter and a
  pitcher never share a key.
\<close>

definition typesApart :: "host \<Rightarrow> bool" where
  "typesApart H = (\<forall>a b. getPlayerKey H (JStr ''hit'') a \<noteq> getPlayerKey H (JStr ''pit'') b)"

section \<open>A host for the examples\<close>

text \<open>
  Modelled from the spec: \<^verbatim>\<open>getPlayerKey\<close> of \<^verbatim>\<open>./player-key.js\<close>, which is not among the
  sources. The specification describes a pure function of the type and the name of a
  player that ignores the case and the surrounding white space of the name, treats a name
  it cannot read as empty, and gives \<^verbatim>\<open>hit|juan-soto\<close> as a key: the type, a bar, and the
  trimmed name in lower case with a dash for each blank.
\<close>

definition textOf :: "jsval \<Rightarrow> string" where
  "textOf v = (case v of JStr s \<Rightarrow> s | _ \<Rightarrow> [])"

definition specPlayerKey :: "jsval \<Rightarrow> jsval \<Rightarrow> string" where
  "specPlayerKey ty nm =
     textOf ty @ ''|'' @
     map (\<lambda>c. if isWhite c then CHR ''-'' else c) (toLowerCase (trim (textOf nm)))"

text \<open>
  The examples convert whole numbers only. The example host prints a whole number in
  decimal and reads a string of decimal digits (the empty string as 0); the other cases
  of its two conversions are not used by any example.
\<close>

definition exNumberToString :: "jsnum \<Rightarrow> string" where
  "exNumberToString n =
     (case n of
        Fin q \<Rightarrow> (if q < 0 then ''-'' else []) @ showNat (nat \<bar>trunc q\<bar>)
      | PInf \<Rightarrow> ''Infinity''
      | NInf \<Rightarrow> ''-Infinity''
      | NaN \<Rightarrow> ''NaN'')"

definition digitOf :: "char \<Rightarrow> nat option" where
  "digitOf c = (let n = (of_char c :: nat) in if 48 \<le> n \<and> n \<le> 57 then Some (n - 48) else None)"

definition exStringToNumber :: "string \<Rightarrow> jsnum" where
  "exStringToNumber s =
     (case those (map digitOf (trim s)) of
        None \<Rightarrow> NaN
      | Some ds \<Rightarrow> Fin (of_nat (foldl (\<lambda>a d. 10 * a + d) 0 ds)))"

definition exampleHost :: host where
  "exampleHost =
     \<lparr> getPlayerKey = specPlayerKey,
       numberToString = exNumberToString,
       stringToNumber = exStringToNumber \<rparr>"

section \<open>Inputs on which no conversion throws\<close>

text \<open>
  \<^verbatim>\<open>String(v)\<close> and \<^verbatim>\<open>Number(v)\<close> throw only when they reach an object with an own
  property \<^verbatim>\<open>toString\<close>. A value is \<open>plain\<close> when they do not reach one.
\<close>

fun plain :: "jsval \<Rightarrow> bool" where
  "plain (JArr xs) = list_all plain xs"
| "plain (JObj kvs) = (''toString'' \<notin> fst ` set kvs)"
| "plain _ = True"

text \<open>The properties \<^verbatim>\<open>normalizeRosterPlayer\<close> converts.\<close>

definition rosterInput :: "jsval \<Rightarrow> bool" where
  "rosterInput p =
     (\<not> isNullish p \<and>
      list_all (\<lambda>k. plain (field p k))
        [''contractTotal'', ''contractYear'', ''price'', ''id'', ''name'', ''team'', ''pos''])"

text \<open>
  The value whose conversion \<^verbatim>\<open>normalizeCategoryWeights\<close> stores under the key \<open>k\<close>, in
  the words of the specification: \<^verbatim>\<open>partial[k]\<close>, and for \<^verbatim>\<open>SB\<close> the legacy \<^verbatim>\<open>SBN\<close> when
  \<^verbatim>\<open>SB\<close> is absent (\<^verbatim>\<open>null\<close> or \<^verbatim>\<open>undefined\<close>) and \<^verbatim>\<open>SBN\<close> is not. An input that is not an
  object has no properties.
\<close>

definition weightInput :: "jsval \<Rightarrow> string \<Rightarrow> jsval" where
  "weightInput partial k =
     (let obj = (if truthy partial \<and> typeofObject partial then partial else JObj []) in
      if k = ''SB'' \<and> isNullish (field obj ''SB'') \<and> \<not> isNullish (field obj ''SBN'')
      then field obj ''SBN'' else field obj k)"

text \<open>What the loop of \<^verbatim>\<open>normalizeCategoryWeights\<close> stores under \<open>k\<close>.\<close>

definition weightOf :: "host \<Rightarrow> (string \<times> jsval) list \<Rightarrow> string \<Rightarrow> jsval" where
  "weightOf H obj k =
     (case Number_js H (field (JObj obj) k) of
        Some n \<Rightarrow> if isFinite n then JNum n else field (JObj DEFAULT_WEIGHTS) k
      | None \<Rightarrow> JUndef)"

section \<open>Stored content of the expected shape\<close>

text \<open>A storage in which every slot is empty.\<close>

definition emptyStorage :: storage where
  "emptyStorage = (\<lambda>_. Empty)"

text \<open>
  The shapes of the decoded values under which nothing throws. The settings are an object
  or an array whose budget and weights convert; a roster that is an array holds only
  entries that \<^verbatim>\<open>normalizeRosterPlayer\<close> accepts; the targets are an array of values that
  are not \<^verbatim>\<open>null\<close> or \<^verbatim>\<open>undefined\<close> and whose plan and key convert.
\<close>

definition settingsInput :: "jsval \<Rightarrow> bool" where
  "settingsInput v =
     ((case v of JObj kvs \<Rightarrow> True | JArr xs \<Rightarrow> True | _ \<Rightarrow> False) \<and>
      plain (field v ''budget_total'') \<and>
      list_all (\<lambda>k. plain (weightInput (field v ''category_weights'') k)) weightKeys)"

definition targetInput :: "jsval \<Rightarrow> bool" where
  "targetInput t =
     (\<not> isNullish t \<and> plain (field t ''plan'') \<and> plain (field t ''player_key''))"

definition arrayOf :: "(jsval \<Rightarrow> bool) \<Rightarrow> jsval \<Rightarrow> bool" where
  "arrayOf P v = (case v of JArr xs \<Rightarrow> list_all P xs | _ \<Rightarrow> False)"

text \<open>A roster value that is no array is returned as it is.\<close>

definition rosterShape :: "jsval \<Rightarrow> bool" where
  "rosterShape v = (case v of JArr xs \<Rightarrow> list_all rosterInput xs | _ \<Rightarrow> True)"

section \<open>Basic facts\<close>

lemma map_of_setProp: "map_of (setProp k v kvs) = (map_of kvs)(k \<mapsto> v)"
  by (simp add: setProp_def update_conv')

lemma fold_update_map_of:
  "distinct (map fst xs) \<Longrightarrow>
     map_of (fold (\<lambda>(k, v). setProp k v) xs ys) k' =
       (case map_of xs k' of Some v \<Rightarrow> Some v | None \<Rightarrow> map_of ys k')"
proof (induction xs arbitrary: ys)
  case Nil
  then show ?case by simp
next
  case (Cons x xs)
  obtain k v where x: "x = (k, v)" by (cases x)
  from Cons.prems x have nk: "map_of xs k = None" and d: "distinct (map fst xs)"
    by (auto simp: map_of_eq_None_iff)
  show ?case
    using Cons.IH [OF d, of "setProp k v ys"] nk
    by (simp add: x map_of_setProp split: option.splits)
qed

lemma map_of_spread:
  "map_of (spread src kvs) k =
     (case map_of (ownProps src) k of Some v \<Rightarrow> Some v | None \<Rightarrow> map_of kvs k)"
  unfolding spread_def
  by (simp add: fold_update_map_of distinct_clearjunk map_of_clearjunk)

lemma field_JObj: "field (JObj kvs) k = (case map_of kvs k of None \<Rightarrow> JUndef | Some x \<Rightarrow> x)"
  by (simp add: field_def)

lemma field_setProp:
  "field (JObj (setProp k v kvs)) k' = (if k' = k then v else field (JObj kvs) k')"
  by (simp add: field_def map_of_setProp)

lemma field_spread:
  "field (JObj (spread src kvs)) k =
     (if k \<in> fst ` set (ownProps src) then field src k else field (JObj kvs) k)"
proof -
  have "k \<in> fst ` set (ownProps src) \<longleftrightarrow> map_of (ownProps src) k \<noteq> None"
    by (simp add: map_of_eq_None_iff)
  then show ?thesis
    by (cases "map_of (ownProps src) k") (simp_all add: field_def map_of_spread)
qed

lemma field_absent: "k \<notin> fst ` set (ownProps v) \<Longrightarrow> field v k = JUndef"
  by (simp add: field_def map_of_eq_None_iff [THEN iffD2])

lemma field_spread_empty: "field (JObj (spread src [])) k = field src k"
  by (simp add: field_spread field_absent)

lemma keys_setProp: "fst ` set (setProp k v kvs) = insert k (fst ` set kvs)"
proof -
  have "set (map fst (setProp k v kvs)) = insert k (set (map fst kvs))"
    unfolding setProp_def update_keys by auto
  then show ?thesis by simp
qed

lemma map_filter_lookup:
  "distinct (map fst ys) \<Longrightarrow>
     map_of (List.map_filter (\<lambda>(k, w). map_option (Pair k) w) ys) k =
       (case map_of ys k of None \<Rightarrow> None | Some w \<Rightarrow> w)"
proof (induction ys)
  case Nil
  then show ?case by (simp add: List.map_filter_simps)
next
  case (Cons y ys)
  obtain k' w where y: "y = (k', w)" by (cases y)
  have sub: "fst ` set (List.map_filter (\<lambda>(k, w). map_option (Pair k) w) ys) \<subseteq> fst ` set ys"
    by (auto simp: List.map_filter_def image_iff split: prod.splits) force
  show ?case
  proof (cases w)
    case None
    from Cons.prems y have nk: "k' \<notin> fst ` set ys" by simp
    then have nk': "map_of ys k' = None" by (simp add: map_of_eq_None_iff)
    from nk sub have "map_of (List.map_filter (\<lambda>(k, w). map_option (Pair k) w) ys) k' = None"
      by (auto simp: map_of_eq_None_iff)
    with Cons y None nk' show ?thesis
      by (simp add: List.map_filter_simps)
  next
    case (Some a)
    with Cons y show ?thesis
      by (auto simp: List.map_filter_simps)
  qed
qed

lemma jsonOf_lookup:
  "map_of (ownProps (jsonOf (JObj kvs))) k =
     (case map_of kvs k of None \<Rightarrow> None
      | Some v \<Rightarrow> if v = JUndef then None else Some (jsonOf v))"
proof -
  let ?g = "\<lambda>v. if v = JUndef then None else Some (jsonOf v)"
  have "map_of (map (\<lambda>(k, v). (k, ?g v)) kvs) k = map_option ?g (map_of kvs k)"
    by (simp add: map_of_map)
  then show ?thesis
    by (simp add: map_filter_lookup distinct_clearjunk map_of_clearjunk split: option.splits)
qed


lemma jsonOf_toJS: "jsonOf (toJS r) = toJS r"
  by (simp add: toJS_def JInt_def List.map_filter_simps)

section \<open>Conversions that do not throw\<close>

lemma those_defined:
  "\<forall>x\<in>set xs. f x \<noteq> None \<Longrightarrow> those (map f xs) \<noteq> None"
  by (induction xs) (auto split: option.splits)

lemma String_js_plain: "plain v \<Longrightarrow> String_js H v \<noteq> None"
proof (induction H v rule: String_js.induct)
  case (6 H xs)
  then have "\<forall>x\<in>set xs. (if isNullish x then Some [] else String_js H x) \<noteq> None"
    by (auto simp: list_all_iff)
  then have "those (map (\<lambda>x. if isNullish x then Some [] else String_js H x) xs) \<noteq> None"
    by (rule those_defined)
  then show ?case by auto
qed simp_all

lemma Number_js_plain: "plain v \<Longrightarrow> Number_js H v \<noteq> None"
  using String_js_plain [of v H] by (cases v) auto

lemma toInt_plain: "plain v \<Longrightarrow> toInt H v d \<noteq> None"
  using Number_js_plain [of v H] by (auto simp: toInt_def)

lemma clampInt_plain: "plain v \<Longrightarrow> clampInt H v a b \<noteq> None"
  using toInt_plain [of v H a] by (auto simp: clampInt_def)

lemma clampInt_range: "clampInt H v a b = Some x \<Longrightarrow> a \<le> b \<Longrightarrow> a \<le> x \<and> x \<le> b"
  by (auto simp: clampInt_def)

lemma plain_nullish: "plain v \<Longrightarrow> plain d \<Longrightarrow> plain (nullish v d)"
  by (simp add: nullish_def)

lemma normalizeRosterPlayer_total:
  assumes "rosterInput p"
  shows "normalizeRosterPlayer H p \<noteq> None"
proof -
  from assms have n: "\<not> isNullish p"
    and f: "plain (field p ''contractTotal'')" "plain (field p ''contractYear'')"
      "plain (field p ''price'')" "plain (field p ''id'')" "plain (field p ''name'')"
      "plain (field p ''team'')" "plain (field p ''pos'')"
    by (simp_all add: rosterInput_def)
  obtain total where t: "clampInt H (nullish (field p ''contractTotal'') (JInt 1)) 1 10 = Some total"
    using clampInt_plain [OF plain_nullish [OF f(1), of "JInt 1"], of H 1 10] by (auto simp: JInt_def)
  obtain year where y: "clampInt H (nullish (field p ''contractYear'') (JInt 1)) 1 total = Some year"
    using clampInt_plain [OF plain_nullish [OF f(2), of "JInt 1"], of H 1 total] by (auto simp: JInt_def)
  obtain pr where pr: "toInt H (nullish (field p ''price'') (JInt 0)) 0 = Some pr"
    using toInt_plain [OF plain_nullish [OF f(3), of "JInt 0"], of H 0] by (auto simp: JInt_def)
  obtain ids where i: "String_js H (field p ''id'') = Some ids"
    using String_js_plain [OF f(4), of H] by auto
  obtain nm where nm: "String_js H (nullish (field p ''name'') (JStr [])) = Some nm"
    using String_js_plain [OF plain_nullish [OF f(5), of "JStr []"], of H] by auto
  obtain tm where tm: "String_js H (nullish (field p ''team'') (JStr [])) = Some tm"
    using String_js_plain [OF plain_nullish [OF f(6), of "JStr []"], of H] by auto
  obtain ps where ps: "String_js H (nullish (field p ''pos'') (JStr [])) = Some ps"
    using String_js_plain [OF plain_nullish [OF f(7), of "JStr []"], of H] by auto
  show ?thesis
    by (simp add: normalizeRosterPlayer_def n t y pr i nm tm ps)
qed

lemma normalizeRosterPlayer_SomeD:
  assumes "normalizeRosterPlayer H p = Some r"
  shows "\<not> isNullish p"
    and "clampInt H (nullish (field p ''contractTotal'') (JInt 1)) 1 10 = Some (contractTotal r)"
    and "clampInt H (nullish (field p ''contractYear'') (JInt 1)) 1 (contractTotal r) = Some (contractYear r)"
    and "\<exists>pr. toInt H (nullish (field p ''price'') (JInt 0)) 0 = Some pr \<and> price r = max 0 pr"
    and "String_js H (field p ''id'') = Some (playerId r)"
    and "String_js H (nullish (field p ''name'') (JStr [])) = Some (name r)"
    and "String_js H (nullish (field p ''team'') (JStr [])) = Some (team r)"
    and "String_js H (nullish (field p ''pos'') (JStr [])) = Some (pos r)"
    and "underContract r = truthy (field p ''underContract'')"
    and "playerType r = (if field p ''type'' = JStr ''pit'' then ''pit'' else ''hit'')"
  using assms
  by (auto simp: normalizeRosterPlayer_def Option.bind_eq_Some_conv split: if_splits jsval.splits)


section \<open>The shape of a normalized roster entry\<close>

text \<open>
  C7. Whenever \<^verbatim>\<open>normalizeRosterPlayer(p)\<close> returns, its result has
  \<open>1 \<le> contractYear \<le> contractTotal \<le> 10\<close> and \<open>price \<ge> 0\<close>, and its type is \<^verbatim>\<open>hit\<close> or
  \<^verbatim>\<open>pit\<close>: \<^verbatim>\<open>pit\<close> exactly when the type of the input is the string \<^verbatim>\<open>pit\<close>. It returns for
  every input that is not \<^verbatim>\<open>null\<close> or \<^verbatim>\<open>undefined\<close> and whose converted properties are
  plain values.
\<close>

theorem normalizeRosterPlayer_invariant:
  "(\<forall>r. normalizeRosterPlayer H p = Some r \<longrightarrow>
      1 \<le> contractYear r \<and> contractYear r \<le> contractTotal r \<and> contractTotal r \<le> 10 \<and>
      0 \<le> price r \<and> (playerType r = ''hit'' \<or> playerType r = ''pit'') \<and>
      (playerType r = ''pit'' \<longleftrightarrow> field p ''type'' = JStr ''pit'')) \<and>
   (rosterInput p \<longrightarrow> (\<exists>r. normalizeRosterPlayer H p = Some r))"
proof (intro conjI allI impI)
  fix r assume r: "normalizeRosterPlayer H p = Some r"
  note d = normalizeRosterPlayer_SomeD [OF r]
  from clampInt_range [OF d(2)] have t: "1 \<le> contractTotal r" "contractTotal r \<le> 10" by simp_all
  from clampInt_range [OF d(3) t(1)] show "1 \<le> contractYear r" "contractYear r \<le> contractTotal r"
    by simp_all
  from t show "contractTotal r \<le> 10" by simp
  from d(4) show "0 \<le> price r" by auto
  from d(10) show "playerType r = ''hit'' \<or> playerType r = ''pit''" by simp
  from d(10) show "playerType r = ''pit'' \<longleftrightarrow> field p ''type'' = JStr ''pit''" by simp
next
  assume "rosterInput p"
  then show "\<exists>r. normalizeRosterPlayer H p = Some r"
    using normalizeRosterPlayer_total [of p H] by auto
qed


theorem normalizeRosterPlayer_invariant_witness:
  "\<forall>H. rosterInput (JObj [(''id'', JStr ''x''), (''type'', JStr ''pit''),
          (''contractYear'', JInt 7), (''contractTotal'', JInt 3), (''price'', JInt (- 5))]) \<and>
    normalizeRosterPlayer H (JObj [(''id'', JStr ''x''), (''type'', JStr ''pit''),
          (''contractYear'', JInt 7), (''contractTotal'', JInt 3), (''price'', JInt (- 5))])
      = Some \<lparr> playerId = ''x'', name = [], playerType = ''pit'', team = [], pos = [],
               underContract = False, contractYear = 3, contractTotal = 3, price = 0 \<rparr> \<and>
    (1::int) \<le> 3 \<and> (3::int) \<le> 10 \<and> (0::int) \<le> 0"
proof
  fix H
  let ?p = "JObj [(''id'', JStr ''x''), (''type'', JStr ''pit''),
          (''contractYear'', JInt 7), (''contractTotal'', JInt 3), (''price'', JInt (- 5))]"
  have ri: "rosterInput ?p"
    by (simp add: rosterInput_def field_def JInt_def)
  have e: "normalizeRosterPlayer H ?p
      = Some \<lparr> playerId = ''x'', name = [], playerType = ''pit'', team = [], pos = [],
               underContract = False, contractYear = 3, contractTotal = 3, price = 0 \<rparr>"
    by (simp add: normalizeRosterPlayer_def field_def JInt_def clampInt_def toInt_def
        nullish_def trunc_def)
  from normalizeRosterPlayer_invariant [of H ?p] ri e
  show "rosterInput ?p \<and> normalizeRosterPlayer H ?p
      = Some \<lparr> playerId = ''x'', name = [], playerType = ''pit'', team = [], pos = [],
               underContract = False, contractYear = 3, contractTotal = 3, price = 0 \<rparr> \<and>
    (1::int) \<le> 3 \<and> (3::int) \<le> 10 \<and> (0::int) \<le> 0"
    by simp
qed

section \<open>Category weights\<close>

lemma spread_defaults: "spread (JObj DEFAULT_WEIGHTS) [] = DEFAULT_WEIGHTS"
  by (simp add: spread_def DEFAULT_WEIGHTS_def weightKeys_def setProp_def)

lemma keys_defaults: "map fst DEFAULT_WEIGHTS = weightKeys"
  by (simp add: DEFAULT_WEIGHTS_def comp_def)

lemma field_defaults: "k \<in> set weightKeys \<Longrightarrow> field (JObj DEFAULT_WEIGHTS) k = JNum (Fin 1)"
  by (auto simp: field_def DEFAULT_WEIGHTS_def map_of_map_restrict)

lemma weightsLoop_Some:
  "weightsLoop H obj ks out = Some out' \<Longrightarrow> set ks \<subseteq> fst ` set out \<Longrightarrow>
     map fst out' = map fst out \<and>
     (\<forall>k\<in>set ks. Number_js H (field (JObj obj) k) \<noteq> None) \<and>
     (\<forall>k. map_of out' k = (if k \<in> set ks then Some (weightOf H obj k) else map_of out k))"
proof (induction ks arbitrary: out)
  case Nil
  then show ?case by simp
next
  case (Cons k ks)
  from Cons.prems(1) obtain n where n: "Number_js H (field (JObj obj) k) = Some n"
    and rest: "weightsLoop H obj ks
                 (setProp k (if isFinite n then JNum n else field (JObj DEFAULT_WEIGHTS) k) out) = Some out'"
    by (auto split: option.splits)
  let ?out = "setProp k (if isFinite n then JNum n else field (JObj DEFAULT_WEIGHTS) k) out"
  from Cons.prems(2) have kin: "k \<in> fst ` set out" and sub: "set ks \<subseteq> fst ` set ?out"
    by (auto simp: keys_setProp)
  have keys: "map fst ?out = map fst out"
    using kin by (simp add: setProp_def update_keys)
  from Cons.IH [OF rest sub] keys n show ?case
    by (auto simp: map_of_setProp weightOf_def)
qed

lemma weightsLoop_total:
  "\<forall>k\<in>set ks. Number_js H (field (JObj obj) k) \<noteq> None \<Longrightarrow> weightsLoop H obj ks out \<noteq> None"
  by (induction ks arbitrary: out) (auto split: option.splits)

lemma field_migrateWeights:
  "k \<noteq> ''SBN'' \<Longrightarrow>
   field (JObj (migrateWeights obj)) k =
     (if k = ''SB'' \<and> isNullish (field (JObj obj) ''SB'') \<and> \<not> isNullish (field (JObj obj) ''SBN'')
      then field (JObj obj) ''SBN'' else field (JObj obj) k)"
  by (simp add: migrateWeights_def field_JObj delete_conv' map_of_setProp)

lemma weightKeys_not_legacy: "k \<in> set weightKeys \<Longrightarrow> k \<noteq> ''SBN''"
  by (auto simp: weightKeys_def)

lemma field_weight_source:
  assumes "k \<in> set weightKeys"
  shows "field (JObj (migrateWeights
            (if truthy partial \<and> typeofObject partial then spread partial [] else []))) k
         = weightInput partial k"
  using weightKeys_not_legacy [OF assms]
  by (auto simp: field_migrateWeights weightInput_def field_spread_empty Let_def)


text \<open>
  C6. Whenever \<^verbatim>\<open>normalizeCategoryWeights(partial)\<close> returns, the result has exactly the
  14 canonical keys, in their order; under each key stands a finite number: the number
  \<^verbatim>\<open>Number(partial[key])\<close> when it is finite, the default 1 otherwise, where for \<^verbatim>\<open>SB\<close> the
  legacy \<^verbatim>\<open>SBN\<close> is read when \<^verbatim>\<open>SB\<close> is absent (\<open>weightInput\<close>). It returns whenever the
  14 values it converts are plain.
\<close>

theorem normalizeCategoryWeights_canonical:
  "(\<forall>out. normalizeCategoryWeights H partial = Some out \<longrightarrow>
      map fst out = weightKeys \<and>
      (\<forall>k\<in>set weightKeys. \<exists>n. Number_js H (weightInput partial k) = Some n \<and>
          map_of out k = Some (JNum (if isFinite n then n else Fin 1))) \<and>
      (\<forall>k v. map_of out k = Some v \<longrightarrow> (\<exists>q. v = JNum (Fin q)))) \<and>
   ((\<forall>k\<in>set weightKeys. plain (weightInput partial k)) \<longrightarrow>
      (\<exists>out. normalizeCategoryWeights H partial = Some out))"
proof (intro conjI allI impI)
  let ?obj = "migrateWeights (if truthy partial \<and> typeofObject partial then spread partial [] else [])"
  {
    fix out assume out: "normalizeCategoryWeights H partial = Some out"
    then have loop: "weightsLoop H ?obj weightKeys DEFAULT_WEIGHTS = Some out"
      by (simp add: normalizeCategoryWeights_def spread_defaults keys_defaults)
    have sub: "set weightKeys \<subseteq> fst ` set DEFAULT_WEIGHTS"
      using keys_defaults by (metis set_map subset_refl)
    note L = weightsLoop_Some [OF loop sub]
    from L show keys: "map fst out = weightKeys" by (simp add: keys_defaults)
    show vals: "\<forall>k\<in>set weightKeys. \<exists>n. Number_js H (weightInput partial k) = Some n \<and>
          map_of out k = Some (JNum (if isFinite n then n else Fin 1))"
    proof
      fix k assume k: "k \<in> set weightKeys"
      with L obtain n where n: "Number_js H (field (JObj ?obj) k) = Some n" by auto
      from L k have "map_of out k = Some (weightOf H ?obj k)" by simp
      with n k show "\<exists>n. Number_js H (weightInput partial k) = Some n \<and>
          map_of out k = Some (JNum (if isFinite n then n else Fin 1))"
        by (simp add: weightOf_def field_defaults field_weight_source [symmetric])
    qed
    fix k v assume kv: "map_of out k = Some v"
    then have "k \<in> set (map fst out)" by (metis map_of_eq_None_iff option.distinct(1) set_map)
    with keys have "k \<in> set weightKeys" by simp
    with vals obtain n where "map_of out k = Some (JNum (if isFinite n then n else Fin 1))"
      by blast
    with kv have "v = JNum (if isFinite n then n else Fin 1)" by simp
    then show "\<exists>q. v = JNum (Fin q)" by (cases n) auto
  }
  assume pl: "\<forall>k\<in>set weightKeys. plain (weightInput partial k)"
  have "\<forall>k\<in>set weightKeys. Number_js H (field (JObj ?obj) k) \<noteq> None"
    using pl by (simp add: field_weight_source Number_js_plain)
  then have "weightsLoop H ?obj weightKeys DEFAULT_WEIGHTS \<noteq> None"
    by (rule weightsLoop_total)
  then show "\<exists>out. normalizeCategoryWeights H partial = Some out"
    by (auto simp: normalizeCategoryWeights_def spread_defaults keys_defaults)
qed


theorem normalizeCategoryWeights_canonical_witness:
  "\<forall>H. list_all (\<lambda>k. plain (weightInput
            (JObj [(''SBN'', JInt 3), (''HR'', JNull), (''K'', JInt 2), (''zz'', JStr ''x'')]) k))
          weightKeys \<and>
     normalizeCategoryWeights H
       (JObj [(''SBN'', JInt 3), (''HR'', JNull), (''K'', JInt 2), (''zz'', JStr ''x'')]) =
     Some [(''AVG'', JNum (Fin 1)), (''OPS'', JNum (Fin 1)), (''TB'', JNum (Fin 1)),
       (''HR'', JNum (Fin 0)), (''RBI'', JNum (Fin 1)), (''R'', JNum (Fin 1)),
       (''SB'', JNum (Fin 3)), (''ERA'', JNum (Fin 1)), (''WHIP'', JNum (Fin 1)),
       (''IP'', JNum (Fin 1)), (''QS'', JNum (Fin 1)), (''K'', JNum (Fin 2)),
       (''SV'', JNum (Fin 1)), (''HLD'', JNum (Fin 1))]"
proof
  fix H
  let ?w = "JObj [(''SBN'', JInt 3), (''HR'', JNull), (''K'', JInt 2), (''zz'', JStr ''x'')]"
  let ?out = "[(''AVG'', JNum (Fin 1)), (''OPS'', JNum (Fin 1)), (''TB'', JNum (Fin 1)),
       (''HR'', JNum (Fin 0)), (''RBI'', JNum (Fin 1)), (''R'', JNum (Fin 1)),
       (''SB'', JNum (Fin 3)), (''ERA'', JNum (Fin 1)), (''WHIP'', JNum (Fin 1)),
       (''IP'', JNum (Fin 1)), (''QS'', JNum (Fin 1)), (''K'', JNum (Fin 2)),
       (''SV'', JNum (Fin 1)), (''HLD'', JNum (Fin 1))]"
  have pl: "list_all (\<lambda>k. plain (weightInput ?w k)) weightKeys"
    by (simp add: weightInput_def weightKeys_def field_def JInt_def)
  have e: "normalizeCategoryWeights H ?w = Some ?out"
    by (simp add: normalizeCategoryWeights_def spread_defaults keys_defaults weightKeys_def
        migrateWeights_def field_JObj spread_def setProp_def JInt_def DEFAULT_WEIGHTS_def)
  from normalizeCategoryWeights_canonical [of H ?w] pl e
  show "list_all (\<lambda>k. plain (weightInput ?w k)) weightKeys \<and>
     normalizeCategoryWeights H ?w = Some ?out"
    by simp
qed

section \<open>The remaining budget\<close>


lemma save_other: "k' \<noteq> k \<Longrightarrow> save k v st k' = st k'"
  by (simp add: save_def)



lemma recalc_SomeD:
  assumes "recalcBudgetRemaining H st = Some (b, st')"
  obtains settings roster st1 ps cs ts pls bt where
    "getSettings H st = Some settings"
    "getRoster H st = Some (JArr ps, st1)"
    "foldM (contractStep H) ps 0 = Some cs"
    "loadAuctionTargets st1 = JArr ts"
    "foldM (plannedStep H (keeperKeys H ps)) ts 0 = Some pls"
    "spent b = cs + pls"
    "toInt H (nullish (field (JObj settings) ''budget_total'') (JInt 0)) 0 = Some bt"
    "budgetTotal b = max 0 bt"
    "remaining b = max 0 (budgetTotal b - spent b)"
    "setSettings H (JObj (setProp ''budget_remaining'' (JInt (remaining b))
        (spread (JObj settings) []))) st1 = Some st'"
proof -
  from assms obtain settings roster st1 where s: "getSettings H st = Some settings"
    and r: "getRoster H st = Some (roster, st1)"
    by (auto simp: recalcBudgetRemaining_def Option.bind_eq_Some_conv)
  from assms s r obtain ps where ps: "asArray roster = Some ps"
    by (auto simp: recalcBudgetRemaining_def Option.bind_eq_Some_conv)
  then have roster: "roster = JArr ps" by (cases roster) auto
  from assms s r ps obtain cs where cs: "foldM (contractStep H) ps 0 = Some cs"
    by (auto simp: recalcBudgetRemaining_def Option.bind_eq_Some_conv)
  from assms s r ps cs obtain ts where ts: "asArray (loadAuctionTargets st1) = Some ts"
    by (auto simp: recalcBudgetRemaining_def Option.bind_eq_Some_conv Let_def)
  then have targets: "loadAuctionTargets st1 = JArr ts" by (cases "loadAuctionTargets st1") auto
  from assms s r ps cs ts obtain pls where pls: "foldM (plannedStep H (keeperKeys H ps)) ts 0 = Some pls"
    by (auto simp: recalcBudgetRemaining_def Option.bind_eq_Some_conv Let_def)
  from assms s r ps cs ts pls obtain bt where
    bt: "toInt H (nullish (field (JObj settings) ''budget_total'') (JInt 0)) 0 = Some bt"
    by (auto simp: recalcBudgetRemaining_def Option.bind_eq_Some_conv Let_def)
  from assms s r ps cs ts pls bt have
    fin: "setSettings H (JObj (setProp ''budget_remaining'' (JInt (max 0 (max 0 bt - (cs + pls))))
        (spread (JObj settings) []))) st1 = Some st'"
    and b: "b = \<lparr> spent = cs + pls, remaining = max 0 (max 0 bt - (cs + pls)), budgetTotal = max 0 bt \<rparr>"
    by (auto simp: recalcBudgetRemaining_def Option.bind_eq_Some_conv Let_def)
  show ?thesis
    using that [OF s r [unfolded roster] cs targets pls _ bt] fin b by simp
qed




section \<open>The roster after migration\<close>

lemma trunc_of_int: "trunc (of_int i) = i"
  by (simp add: trunc_def)

lemma toInt_JInt: "toInt H (JInt i) d = Some i"
  by (simp add: toInt_def JInt_def trunc_of_int)

lemma clampInt_JInt: "clampInt H (JInt i) a b = Some (max a (min b i))"
  by (simp add: clampInt_def toInt_JInt)

lemma nullish_JInt: "nullish (JInt i) d = JInt i"
  by (simp add: nullish_def JInt_def)

lemma nullish_JStr: "nullish (JStr s) d = JStr s"
  by (simp add: nullish_def)

lemma normalizeRosterPlayer_normalized:
  assumes "normalizeRosterPlayer H p = Some r"
  shows "normalized r"
proof -
  note d = normalizeRosterPlayer_SomeD [OF assms]
  from clampInt_range [OF d(2)] have t: "1 \<le> contractTotal r" "contractTotal r \<le> 10" by simp_all
  from clampInt_range [OF d(3) t(1)] t d(4) d(10) show ?thesis
    by (auto simp: normalized_def)
qed

lemma field_toJS:
  "field (toJS r) ''id'' = JStr (playerId r)"
  "field (toJS r) ''name'' = JStr (name r)"
  "field (toJS r) ''type'' = JStr (playerType r)"
  "field (toJS r) ''team'' = JStr (team r)"
  "field (toJS r) ''pos'' = JStr (pos r)"
  "field (toJS r) ''underContract'' = JBool (underContract r)"
  "field (toJS r) ''contractYear'' = JInt (contractYear r)"
  "field (toJS r) ''contractTotal'' = JInt (contractTotal r)"
  "field (toJS r) ''price'' = JInt (price r)"
  by (simp_all add: toJS_def field_def)

lemma toJS_not_nullish: "\<not> isNullish (toJS r)"
  by (simp add: toJS_def)

lemma normalizeRosterPlayer_toJS:
  assumes "normalized r"
  shows "normalizeRosterPlayer H (toJS r) = Some r"
  using assms
  by (auto simp: normalizeRosterPlayer_def toJS_not_nullish field_toJS nullish_JInt nullish_JStr
      clampInt_JInt toInt_JInt normalized_def)


lemma trim_idem: "trim (trim s) = trim s"
proof -
  let ?a = "dropWhile isWhite s"
  let ?b = "dropWhile isWhite (rev ?a)"
  have b: "dropWhile isWhite ?b = ?b" by simp
  have "dropWhile isWhite (rev ?b) = rev ?b"
  proof (cases "?b = []")
    case True
    show ?thesis unfolding True by simp
  next
    case False
    have "rev ?a = takeWhile isWhite (rev ?a) @ ?b" by simp
    then have "?a = rev ?b @ rev (takeWhile isWhite (rev ?a))"
      by (metis rev_append rev_rev_ident)
    with False have "hd (rev ?b) = hd ?a" and "?a \<noteq> []"
      by (metis hd_append2 rev_is_Nil_conv, metis Nil_is_append_conv rev_is_Nil_conv)
    then have "\<not> isWhite (hd (rev ?b))"
      using hd_dropWhile [of isWhite s] by simp
    then show ?thesis
      by (simp add: dropWhile_eq_self_iff)
  qed
  then show ?thesis
    by (simp add: trim_def)
qed

lemma lower_types: "toLowerCase (trim ''hit'') = ''hit''" "toLowerCase (trim ''pit'') = ''pit''"
  by code_simp+

lemma keys_toJS:
  "fst ` set (ownProps (toJS r)) =
     {''id'', ''name'', ''type'', ''team'', ''pos'', ''underContract'', ''contractYear'',
      ''contractTotal'', ''price''}"
  by (simp add: toJS_def)

lemma Number_js_JInt: "Number_js H (JInt i) = Some (Fin (of_int i))"
  by (simp add: JInt_def)

lemma mergePlayers_eq:
  assumes "normalized prev"
  shows "mergePlayers H prev r nextId ty nm =
    Some \<lparr> playerId = nextId, name = nm,
           playerType = (if ty = ''pit'' then ''pit'' else ''hit''),
           team = team r, pos = pos r,
           underContract = (underContract prev \<or> underContract r),
           contractYear = contractYear prev, contractTotal = contractTotal prev,
           price = price prev \<rparr>"
  using assms
  by (auto simp: mergePlayers_def Let_def field_toJS Number_js_JInt normalizeRosterPlayer_def
      field_setProp field_spread keys_toJS nullish_JInt nullish_JStr clampInt_JInt toInt_JInt
      normalized_def)


lemma update_absent: "map_of al k = None \<Longrightarrow> AList.update k v al = al @ [(k, v)]"
  by (induction al) (auto split: if_splits)

lemma set_update_subset: "set (AList.update k v al) \<subseteq> insert (k, v) (set al)"
  by (induction al) auto

lemma migrateStep_SomeD:
  assumes "migrateStep H byId raw = Some byId'" and "canonicalMap H byId"
  obtains r e where "normalizeRosterPlayer H raw = Some r"
    and "byId' = AList.update (playerId e) e byId"
    and "canonical H e"
    and "name e = trim (name r)"
    and "playerType e = playerType r"
    and "map_of byId (playerId e) = None \<Longrightarrow>
           e = r\<lparr>playerId := playerId e, playerType := playerType r, name := trim (name r)\<rparr>"
    and "\<And>prev. map_of byId (playerId e) = Some prev \<Longrightarrow>
           e = \<lparr> playerId = playerId e, name = trim (name r), playerType = playerType r,
                 team = team r, pos = pos r,
                 underContract = (underContract prev \<or> underContract r),
                 contractYear = contractYear prev, contractTotal = contractTotal prev,
                 price = price prev \<rparr>"
proof -
  from assms(1) obtain r where r: "normalizeRosterPlayer H raw = Some r"
    by (auto simp: migrateStep_def Option.bind_eq_Some_conv)
  have nr: "normalized r" using r by (rule normalizeRosterPlayer_normalized)
  then have ty: "(if toLowerCase (trim (playerType r)) = ''pit'' then ''pit'' else ''hit'') = playerType r"
    by (auto simp: normalized_def lower_types)
  let ?nm = "trim (name r)"
  let ?k = "getPlayerKey H (JStr (playerType r)) (JStr ?nm)"
  show ?thesis
  proof (cases "map_of byId ?k")
    case None
    let ?e = "r\<lparr>playerId := ?k, playerType := playerType r, name := ?nm\<rparr>"
    have 1: "byId' = AList.update (playerId ?e) ?e byId"
      using assms(1) r None by (simp add: migrateStep_def ty Let_def)
    have 2: "canonical H ?e"
      using nr by (simp add: canonical_def normalized_def trim_idem)
    show ?thesis
      by (rule that [of r ?e]) (use r 1 2 None in simp_all)
  next
    case (Some prev)
    then have "(?k, prev) \<in> set byId" by (rule map_of_SomeD)
    with assms(2) have np: "normalized prev"
      by (auto simp: canonicalMap_def list_all_iff canonical_def)
    let ?e = "\<lparr> playerId = ?k, name = ?nm, playerType = playerType r,
                 team = team r, pos = pos r,
                 underContract = (underContract prev \<or> underContract r),
                 contractYear = contractYear prev, contractTotal = contractTotal prev,
                 price = price prev \<rparr>"
    have pt: "(if playerType r = ''pit'' then ''pit'' else ''hit'') = playerType r"
      using nr by (auto simp: normalized_def)
    have 1: "byId' = AList.update (playerId ?e) ?e byId"
      using assms(1) r Some by (simp add: migrateStep_def ty Let_def mergePlayers_eq [OF np] pt)
    have 2: "canonical H ?e"
      using nr np by (simp add: canonical_def normalized_def trim_idem)
    show ?thesis
      by (rule that [of r ?e]) (use r 1 2 Some in simp_all)
  qed
qed

lemma migrateStep_canonical:
  assumes "migrateStep H byId raw = Some byId'" and "canonicalMap H byId"
  shows "canonicalMap H byId'"
proof -
  from assms obtain e where 1: "byId' = AList.update (playerId e) e byId" and 2: "canonical H e"
    by (rule migrateStep_SomeD)
  have "distinct (map fst byId')"
    using assms(2) by (simp add: 1 canonicalMap_def distinct_update)
  moreover have "list_all (\<lambda>(k, r). k = playerId r \<and> canonical H r) byId'"
    using assms(2) 2 set_update_subset [of "playerId e" e byId]
    by (auto simp: 1 canonicalMap_def list_all_iff)
  ultimately show ?thesis by (simp add: canonicalMap_def)
qed

lemma foldM_invariant:
  assumes "foldM f xs a = Some a'" and "P a"
    and "\<And>a x a'. P a \<Longrightarrow> f a x = Some a' \<Longrightarrow> P a'"
  shows "P a'"
  using assms(1,2)
proof (induction xs arbitrary: a)
  case Nil
  then show ?case by simp
next
  case (Cons x xs)
  then show ?case using assms(3) by (auto split: option.splits)
qed

lemma migrate_canonical:
  assumes "foldM (migrateStep H) xs [] = Some byId"
  shows "canonicalMap H byId"
  using assms
  by (rule foldM_invariant [where P = "canonicalMap H"])
    (simp_all add: canonicalMap_def migrateStep_canonical [unfolded canonicalMap_def])

lemma canonicalMap_roster: "canonicalMap H byId \<Longrightarrow> canonicalRoster H (map snd byId)"
proof -
  assume a: "canonicalMap H byId"
  then have eq: "map (playerId \<circ> snd) byId = map fst byId"
    by (auto simp: canonicalMap_def list_all_iff)
  from a have "distinct (map (playerId \<circ> snd) byId)"
    unfolding eq by (simp add: canonicalMap_def)
  with a show ?thesis
    by (auto simp: canonicalMap_def canonicalRoster_def list_all_iff)
qed

lemma update_nonempty: "AList.update k v al \<noteq> []"
  by (cases al) auto

lemma migrateStep_nonempty: "migrateStep H a y = Some a' \<Longrightarrow> a' \<noteq> []"
  by (auto simp: migrateStep_def Option.bind_eq_Some_conv Let_def update_nonempty
      split: option.splits)

lemma foldM_last:
  assumes "foldM f xs a = Some b" and "xs \<noteq> []"
    and "\<And>a x a'. f a x = Some a' \<Longrightarrow> Q a'"
  shows "Q b"
  using assms(1,2)
proof (induction xs arbitrary: a)
  case Nil
  then show ?case by simp
next
  case (Cons x xs)
  then show ?case using assms(3) by (cases xs) (auto split: option.splits)
qed

lemma migrateStep_fixed:
  assumes "canonical H m" and "map_of byId (playerId m) = None"
  shows "migrateStep H byId (toJS m) = Some (byId @ [(playerId m, m)])"
proof -
  from assms(1) have n: "normalized m" and t: "trim (name m) = name m"
    and k: "getPlayerKey H (JStr (playerType m)) (JStr (name m)) = playerId m"
    by (simp_all add: canonical_def)
  from n have ty: "(if toLowerCase (trim (playerType m)) = ''pit'' then ''pit'' else ''hit'') = playerType m"
    by (auto simp: normalized_def lower_types)
  show ?thesis
    using assms(2)
    by (simp add: migrateStep_def normalizeRosterPlayer_toJS [OF n] ty t k update_absent)
qed

lemma migrate_fixed:
  "list_all (canonical H) ms \<Longrightarrow> distinct (map playerId ms) \<Longrightarrow>
   set (map playerId ms) \<inter> fst ` set acc = {} \<Longrightarrow>
   foldM (migrateStep H) (map toJS ms) acc = Some (acc @ map (\<lambda>m. (playerId m, m)) ms)"
proof (induction ms arbitrary: acc)
  case Nil
  then show ?case by simp
next
  case (Cons m ms)
  from Cons.prems have c: "canonical H m" and absent: "map_of acc (playerId m) = None"
    by (auto simp: map_of_eq_None_iff)
  have step: "migrateStep H acc (toJS m) = Some (acc @ [(playerId m, m)])"
    using c absent by (rule migrateStep_fixed)
  have "foldM (migrateStep H) (map toJS ms) (acc @ [(playerId m, m)]) =
          Some ((acc @ [(playerId m, m)]) @ map (\<lambda>m. (playerId m, m)) ms)"
    using Cons.prems by (intro Cons.IH) auto
  with step show ?case by simp
qed

lemma not_changed: "\<not> rosterChanged ms (map toJS ms)"
  by (induction ms) (auto simp: rosterChanged_def optProp_def toJS_not_nullish field_toJS)

lemma jsonOf_roster: "jsonOf (JArr (map toJS ms)) = JArr (map toJS ms)"
  by (simp add: jsonOf_toJS)

lemma getRoster_fixed:
  assumes "canonicalRoster H ms" and "st ROSTER_KEY = Json (JArr (map toJS ms))"
  shows "getRoster H st = Some (JArr (map toJS ms), st)"
proof (cases ms)
  case Nil
  with assms(2) show ?thesis by (simp add: getRoster_def load_def)
next
  case (Cons m ms')
  have "foldM (migrateStep H) (map toJS ms) [] = Some ([] @ map (\<lambda>m. (playerId m, m)) ms)"
    using assms(1) by (intro migrate_fixed) (simp_all add: canonicalRoster_def)
  then have "foldM (migrateStep H) (toJS m # map toJS ms') [] = Some (map (\<lambda>m. (playerId m, m)) ms)"
    by (simp add: Cons)
  moreover have "map snd (map (\<lambda>m. (playerId m, m)) ms) = ms"
    by (simp add: comp_def)
  moreover have "\<not> rosterChanged ms (toJS m # map toJS ms')"
    using not_changed [of ms] by (simp add: Cons)
  ultimately show ?thesis
    using assms(2) by (simp add: getRoster_def load_def Cons)
qed

lemma getRoster_cases:
  assumes "getRoster H st = Some (v, st')"
  obtains (raw) "v = load st ROSTER_KEY (JArr [])" "st' = st" "\<And>x xs. v \<noteq> JArr (x # xs)"
  | (migrated) ms where "ms \<noteq> []" "canonicalRoster H ms" "v = JArr (map toJS ms)"
      "st' = st \<or> st' = st(ROSTER_KEY := Json (JArr (map toJS ms)))"
proof (cases "\<exists>x xs. load st ROSTER_KEY (JArr []) = JArr (x # xs)")
  case False
  with assms have "v = load st ROSTER_KEY (JArr [])" "st' = st"
    by (auto simp: getRoster_def Let_def split: jsval.splits list.splits)
  with False show ?thesis by (intro raw) auto
next
  case True
  then obtain x xs where l: "load st ROSTER_KEY (JArr []) = JArr (x # xs)" by blast
  with assms obtain byId where f: "foldM (migrateStep H) (x # xs) [] = Some byId"
    by (auto simp: getRoster_def Let_def split: option.splits)
  from f have c: "canonicalRoster H (map snd byId)"
    by (intro canonicalMap_roster migrate_canonical)
  have "byId \<noteq> []"
    using f by (rule foldM_last) (simp_all add: migrateStep_nonempty)
  then have ne: "map snd byId \<noteq> []" by simp
  from assms l f have v: "v = JArr (map toJS (map snd byId))"
    and st': "st' = st \<or> st' = st(ROSTER_KEY := Json (JArr (map toJS (map snd byId))))"
    by (auto simp: getRoster_def Let_def setRoster_def save_def jsonOf_toJS split: if_splits)
  from ne c v st' show ?thesis by (rule migrated)
qed

lemma setRoster_roster:
  "setRoster (JArr (map toJS ms)) st = st(ROSTER_KEY := Json (JArr (map toJS ms)))"
  unfolding setRoster_def save_def jsonOf_roster by simp

lemma getRoster_array:
  assumes "getRoster H st = Some (v, st')" and "load st ROSTER_KEY (JArr []) = JArr (x # xs)"
  shows "\<exists>byId. foldM (migrateStep H) (x # xs) [] = Some byId \<and>
           v = JArr (map toJS (map snd byId)) \<and>
           st' = (if rosterChanged (map snd byId) (x # xs)
                  then st(ROSTER_KEY := Json v) else st)"
proof -
  from assms obtain byId where f: "foldM (migrateStep H) (x # xs) [] = Some byId"
    by (auto simp: getRoster_def Let_def split: option.splits)
  have "getRoster H st = Some (JArr (map toJS (map snd byId)),
       if rosterChanged (map snd byId) (x # xs)
       then setRoster (JArr (map toJS (map snd byId))) st else st)"
    using assms(2) f by (simp add: getRoster_def Let_def del: foldM.simps)
  with assms(1) have "v = JArr (map toJS (map snd byId))"
    and "st' = (if rosterChanged (map snd byId) (x # xs)
                then setRoster (JArr (map toJS (map snd byId))) st else st)"
    by simp_all
  with f show ?thesis
    by (simp add: setRoster_roster del: foldM.simps map_map)
qed

text \<open>
  C5. When \<^verbatim>\<open>getRoster\<close> has returned a list and left the storage \<open>st'\<close>, a second run on
  \<open>st'\<close> returns the same list and leaves \<open>st'\<close> as it is; and if the second run gets to
  its comparison (the stored roster is a non-empty array), it finds nothing changed, so it
  does not write.
\<close>

theorem getRoster_idempotent:
  assumes "getRoster H st = Some (v, st')"
  shows "getRoster H st' = Some (v, st') \<and>
    (\<forall>x xs. load st' ROSTER_KEY (JArr []) = JArr (x # xs) \<longrightarrow>
       (\<exists>byId. foldM (migrateStep H) (x # xs) [] = Some byId \<and>
          \<not> rosterChanged (map snd byId) (x # xs)))"
proof -
  have again: "getRoster H st' = Some (v, st')"
    using assms
  proof (cases rule: getRoster_cases)
    case raw
    with assms show ?thesis by simp
  next
    case (migrated ms)
    from migrated(4) show ?thesis
    proof
      assume "st' = st"
      with assms show ?thesis by simp
    next
      assume "st' = st(ROSTER_KEY := Json (JArr (map toJS ms)))"
      then have "st' ROSTER_KEY = Json (JArr (map toJS ms))" by simp
      with migrated(2) show ?thesis
        unfolding migrated(3) by (rule getRoster_fixed)
    qed
  qed
  moreover have "\<exists>byId. foldM (migrateStep H) (x # xs) [] = Some byId \<and>
          \<not> rosterChanged (map snd byId) (x # xs)"
    if l: "load st' ROSTER_KEY (JArr []) = JArr (x # xs)" for x xs
  proof -
    from getRoster_array [OF again l] obtain byId where
      f: "foldM (migrateStep H) (x # xs) [] = Some byId"
      and v: "v = JArr (map toJS (map snd byId))"
      and w: "st' = (if rosterChanged (map snd byId) (x # xs) then st'(ROSTER_KEY := Json v) else st')"
      by blast
    have "\<not> rosterChanged (map snd byId) (x # xs)"
    proof
      assume c: "rosterChanged (map snd byId) (x # xs)"
      with w have "st' ROSTER_KEY = Json v"
        by (metis fun_upd_same)
      with l v have "x # xs = map toJS (map snd byId)"
        by (simp add: load_def)
      with c not_changed [of "map snd byId"] show False by simp
    qed
    with f show ?thesis by blast
  qed
  ultimately show ?thesis by blast
qed

theorem getRoster_idempotent_witness:
  "\<exists>st'. getRoster exampleHost
       ((\<lambda>_. Empty)(ROSTER_KEY := Json (JArr
          [JObj [(''id'', JStr ''hit|Juan Soto''), (''name'', JStr ''Juan Soto''),
                 (''type'', JStr ''hit''), (''price'', JInt 12)],
           JObj [(''name'', JStr '' juan soto ''), (''underContract'', JBool True)]])))
     = Some (JArr [toJS \<lparr> playerId = ''hit|juan-soto'', name = ''juan soto'',
                playerType = ''hit'', team = [], pos = [], underContract = True,
                contractYear = 1, contractTotal = 1, price = 12 \<rparr>], st') \<and>
     st' ROSTER_KEY = Json (JArr [toJS \<lparr> playerId = ''hit|juan-soto'', name = ''juan soto'',
                playerType = ''hit'', team = [], pos = [], underContract = True,
                contractYear = 1, contractTotal = 1, price = 12 \<rparr>]) \<and>
     getRoster exampleHost st'
     = Some (JArr [toJS \<lparr> playerId = ''hit|juan-soto'', name = ''juan soto'',
                playerType = ''hit'', team = [], pos = [], underContract = True,
                contractYear = 1, contractTotal = 1, price = 12 \<rparr>], st')"
proof -
  let ?st = "(\<lambda>_. Empty)(ROSTER_KEY := Json (JArr
          [JObj [(''id'', JStr ''hit|Juan Soto''), (''name'', JStr ''Juan Soto''),
                 (''type'', JStr ''hit''), (''price'', JInt 12)],
           JObj [(''name'', JStr '' juan soto ''), (''underContract'', JBool True)]]))"
  let ?v = "JArr [toJS \<lparr> playerId = ''hit|juan-soto'', name = ''juan soto'',
                playerType = ''hit'', team = [], pos = [], underContract = True,
                contractYear = 1, contractTotal = 1, price = 12 \<rparr>]"
  have "map_option (\<lambda>(v, s). (v, s ROSTER_KEY)) (getRoster exampleHost ?st) = Some (?v, Json ?v)"
    by code_simp
  then obtain st' where e: "getRoster exampleHost ?st = Some (?v, st')"
    and s: "st' ROSTER_KEY = Json ?v"
    by (cases "getRoster exampleHost ?st") auto
  from getRoster_idempotent [OF e] e s show ?thesis
    by blast
qed

section \<open>What is spent\<close>

lemma contractStep_toJS:
  "normalized m \<Longrightarrow> contractStep H a (toJS m) = Some (a + (if underContract m then price m else 0))"
  by (simp add: contractStep_def getProp_def toJS_not_nullish field_toJS nullish_JInt toInt_JInt
      normalized_def)

lemma contract_sum:
  "list_all normalized ms \<Longrightarrow>
   foldM (contractStep H) (map toJS ms) a = Some (a + sum_list (map price (filter underContract ms)))"
  by (induction ms arbitrary: a) (simp_all add: contractStep_toJS)

lemma keeperKeys_toJS: "keeperKeys H (map toJS ms) = contractKeys H ms"
proof -
  have "filter (\<lambda>p. truthy (field p ''underContract'')) (map toJS ms) = map toJS (filter underContract ms)"
    by (induction ms) (simp_all add: field_toJS)
  then show ?thesis
    by (simp add: keeperKeys_def contractKeys_def field_toJS comp_def)
qed

lemma plannedStep_SomeD:
  assumes "plannedStep H keys a t = Some b" and "[] \<notin> set keys"
  shows "b = (if 0 < targetPlan H t \<and> targetKey H t \<notin> set keys then a + targetPlan H t else a)"
proof -
  from assms(1) obtain pl s where pl: "toInt H (nullish (field t ''plan'') (JInt 0)) 0 = Some pl"
    and s: "String_js H (orElse (field t ''player_key'') (JStr [])) = Some s"
    and b: "b = (if max 0 pl \<le> 0 then a else if trim s \<noteq> [] \<and> trim s \<in> set keys then a
                 else a + max 0 pl)"
    by (auto simp: plannedStep_def getProp_def Option.bind_eq_Some_conv Let_def split: if_splits)
  have "targetPlan H t = max 0 pl" "targetKey H t = trim s"
    by (simp_all add: targetPlan_def targetKey_def pl s)
  with b assms(2) show ?thesis by auto
qed

lemma planned_sum:
  "foldM (plannedStep H keys) ts a = Some b \<Longrightarrow> [] \<notin> set keys \<Longrightarrow>
   b = a + sum_list (map (targetPlan H)
             (filter (\<lambda>t. 0 < targetPlan H t \<and> targetKey H t \<notin> set keys) ts))"
proof (induction ts arbitrary: a)
  case Nil
  then show ?case by simp
next
  case (Cons t ts)
  from Cons.prems(1) obtain a' where s: "plannedStep H keys a t = Some a'"
    and r: "foldM (plannedStep H keys) ts a' = Some b"
    by (auto split: option.splits)
  from plannedStep_SomeD [OF s Cons.prems(2)] Cons.IH [OF r Cons.prems(2)]
  show ?case by auto
qed

lemma storage_keys_differ: "AUCTION_KEY \<noteq> ROSTER_KEY" "''hag_settings'' \<noteq> ROSTER_KEY"
  "''hag_settings'' \<noteq> AUCTION_KEY"
  by (simp_all add: AUCTION_KEY_def ROSTER_KEY_def)

lemma getRoster_other_slot:
  assumes "getRoster H st = Some (v, st1)" and "k \<noteq> ROSTER_KEY"
  shows "st1 k = st k"
  using assms(1)
  by (cases rule: getRoster_cases) (use assms(2) in auto)

lemma getRoster_records:
  assumes "getRoster H st = Some (JArr ps, st1)"
  shows "\<exists>ms. ps = map toJS ms \<and> canonicalRoster H ms"
  using assms
proof (cases rule: getRoster_cases)
  case raw
  from raw(3) [of "hd ps" "tl ps"] have "ps = []" by (cases ps) auto
  then show ?thesis by (auto simp: canonicalRoster_def)
next
  case (migrated ms)
  then show ?thesis by auto
qed

lemma contractKeys_nonempty: "[] \<notin> set (contractKeys H ms)"
  by (simp add: contractKeys_def)

text \<open>
  C1. Whenever \<^verbatim>\<open>recalcBudgetRemaining\<close> returns, \<open>spent\<close> is the sum of the prices of the
  roster entries under contract plus the sum of the planned amounts of exactly those
  targets whose planned amount is positive and whose \<^verbatim>\<open>player_key\<close> is not a canonical key
  of an entry under contract (\<open>contractKeys\<close>). A keeper with price 50 who is also a target
  with plan 20 under the keeper's key adds 50 to \<open>spent\<close>, not 70.
\<close>

theorem recalcBudgetRemaining_spent:
  assumes "recalcBudgetRemaining H st = Some (b, st')"
  shows "\<exists>ms ts st1. getRoster H st = Some (JArr (map toJS ms), st1) \<and>
     loadAuctionTargets st = JArr ts \<and>
     spent b = sum_list (map price (filter underContract ms)) +
       sum_list (map (targetPlan H)
         (filter (\<lambda>t. 0 < targetPlan H t \<and> targetKey H t \<notin> set (contractKeys H ms)) ts))"
  using assms
proof (rule recalc_SomeD)
  fix ps st1 cs ts pls
  assume r: "getRoster H st = Some (JArr ps, st1)"
    and cs: "foldM (contractStep H) ps 0 = Some cs"
    and ts: "loadAuctionTargets st1 = JArr ts"
    and pls: "foldM (plannedStep H (keeperKeys H ps)) ts 0 = Some pls"
    and sp: "spent b = cs + pls"
  from getRoster_records [OF r] obtain ms where ps: "ps = map toJS ms" and c: "canonicalRoster H ms"
    by blast
  from c have n: "list_all normalized ms"
    by (simp add: canonicalRoster_def canonical_def list_all_iff)
  from cs contract_sum [OF n, of H 0] have 1: "cs = sum_list (map price (filter underContract ms))"
    by (simp add: ps)
  from planned_sum [OF pls [unfolded ps keeperKeys_toJS] contractKeys_nonempty]
  have 2: "pls = sum_list (map (targetPlan H)
         (filter (\<lambda>t. 0 < targetPlan H t \<and> targetKey H t \<notin> set (contractKeys H ms)) ts))"
    by simp
  have 3: "loadAuctionTargets st = JArr ts"
    using ts getRoster_other_slot [OF r storage_keys_differ(1)] by (simp add: loadAuctionTargets_def)
  from r 1 2 3 sp show ?thesis
    unfolding ps by blast
qed

theorem recalcBudgetRemaining_spent_witness:
  "\<exists>st' st1.
     recalcBudgetRemaining exampleHost
       ((\<lambda>_. Empty)
          (ROSTER_KEY := Json (JArr [JObj [(''name'', JStr ''A''), (''type'', JStr ''hit''),
             (''underContract'', JBool True), (''price'', JInt 50)]]),
           AUCTION_KEY := Json (JArr [JObj [(''name'', JStr ''A''), (''plan'', JInt 20),
             (''player_key'', JStr ''hit|a'')]])))
       = Some (\<lparr> spent = 50, remaining = 250, budgetTotal = 300 \<rparr>, st') \<and>
     getRoster exampleHost
       ((\<lambda>_. Empty)
          (ROSTER_KEY := Json (JArr [JObj [(''name'', JStr ''A''), (''type'', JStr ''hit''),
             (''underContract'', JBool True), (''price'', JInt 50)]]),
           AUCTION_KEY := Json (JArr [JObj [(''name'', JStr ''A''), (''plan'', JInt 20),
             (''player_key'', JStr ''hit|a'')]])))
       = Some (JArr [toJS \<lparr> playerId = ''hit|a'', name = ''A'', playerType = ''hit'',
                 team = [], pos = [], underContract = True, contractYear = 1,
                 contractTotal = 1, price = 50 \<rparr>], st1) \<and>
     contractKeys exampleHost [\<lparr> playerId = ''hit|a'', name = ''A'', playerType = ''hit'',
                 team = [], pos = [], underContract = True, contractYear = 1,
                 contractTotal = 1, price = 50 \<rparr>] = [''hit|a'']"
proof -
  let ?st = "(\<lambda>_. Empty)
          (ROSTER_KEY := Json (JArr [JObj [(''name'', JStr ''A''), (''type'', JStr ''hit''),
             (''underContract'', JBool True), (''price'', JInt 50)]]),
           AUCTION_KEY := Json (JArr [JObj [(''name'', JStr ''A''), (''plan'', JInt 20),
             (''player_key'', JStr ''hit|a'')]]))"
  let ?b = "\<lparr> spent = 50, remaining = 250, budgetTotal = 300 \<rparr>"
  let ?m = "\<lparr> playerId = ''hit|a'', name = ''A'', playerType = ''hit'',
                 team = [], pos = [], underContract = True, contractYear = 1,
                 contractTotal = 1, price = 50 \<rparr>"
  have "map_option fst (recalcBudgetRemaining exampleHost ?st) = Some ?b"
    by code_simp
  then obtain st' where e: "recalcBudgetRemaining exampleHost ?st = Some (?b, st')"
    by (cases "recalcBudgetRemaining exampleHost ?st") auto
  have "map_option fst (getRoster exampleHost ?st) = Some (JArr [toJS ?m])"
    by code_simp
  then obtain st1 where g: "getRoster exampleHost ?st = Some (JArr [toJS ?m], st1)"
    by (cases "getRoster exampleHost ?st") auto
  have k: "contractKeys exampleHost [?m] = [''hit|a'']"
    by code_simp
  from recalcBudgetRemaining_spent [OF e] e g k show ?thesis
    by blast
qed

section \<open>Adding a player from the CSV\<close>

lemma idIs_toJS: "idIs (JStr k) (toJS r) = Some (playerId r = k)"
  by (simp add: idIs_def getProp_def toJS_not_nullish field_toJS)

lemma findM_toJS:
  "findM (idIs (JStr k)) (map toJS ms) = Some (map_option toJS (find (\<lambda>r. playerId r = k) ms))"
  by (induction ms) (simp_all add: idIs_toJS)

lemma replace_toJS:
  "those (map (\<lambda>r. map_option (\<lambda>b. if b then toJS m else r) (idIs (JStr k) r)) (map toJS ms))
     = Some (map toJS (map (\<lambda>r. if playerId r = k then m else r) ms))"
  by (induction ms) (simp_all add: idIs_toJS)

lemma orElse_JStr: "orElse (JStr a) (JStr b) = JStr (if a = [] then b else a)"
  by (simp add: orElse_def)

lemma fill_existing:
  assumes "normalized x"
  shows "normalizeRosterPlayer H (JObj
           (setProp ''type'' (orElse (field (toJS x) ''type'') (JStr ty))
           (setProp ''pos'' (orElse (field (toJS x) ''pos'') (JStr ps))
           (setProp ''team'' (orElse (field (toJS x) ''team'') (JStr tm))
           (setProp ''name'' (orElse (field (toJS x) ''name'') (JStr nm))
           (spread (toJS x) []))))))
     = Some (x\<lparr> name := (if name x = [] then nm else name x),
                team := (if team x = [] then tm else team x),
                pos := (if pos x = [] then ps else pos x) \<rparr>)"
  using assms
  by (auto simp: normalizeRosterPlayer_def field_toJS orElse_JStr field_setProp field_spread
      keys_toJS nullish_JInt nullish_JStr clampInt_JInt toInt_JInt normalized_def)

lemma create_new:
  assumes "ty = ''hit'' \<or> ty = ''pit''"
  shows "normalizeRosterPlayer H (JObj
           [(''id'', JStr idk), (''name'', JStr nm),
            (''type'', JStr (if ty = ''pit'' then ''pit'' else ''hit'')),
            (''team'', JStr tm), (''pos'', JStr ps),
            (''underContract'', JBool False), (''contractYear'', JInt 1),
            (''contractTotal'', JInt 1), (''price'', JInt 0)])
     = Some \<lparr> playerId = idk, name = nm, playerType = ty, team = tm, pos = ps,
              underContract = False, contractYear = 1, contractTotal = 1, price = 0 \<rparr>"
  using assms
  by (auto simp: normalizeRosterPlayer_def field_def nullish_JInt nullish_JStr clampInt_JInt
      toInt_JInt)

lemma addToRosterFromCsv_eq:
  assumes g: "getRoster H st = Some (JArr (map toJS ms), s1)"
    and c: "canonicalRoster H ms"
    and f: "csvField H csv ''Type'' \<noteq> None" "csvField H csv ''Name'' \<noteq> None"
           "csvField H csv ''Team'' \<noteq> None" "csvField H csv ''POS'' \<noteq> None"
  shows "addToRosterFromCsv H csv st =
     Some (case find (\<lambda>r. playerId r = csvKey H csv) ms of
        Some x \<Rightarrow> (fillBlanks H csv x,
           s1(ROSTER_KEY := Json (JArr (map toJS
             (map (\<lambda>r. if playerId r = csvKey H csv then fillBlanks H csv x else r) ms)))))
      | None \<Rightarrow> (createdFromCsv H csv,
           s1(ROSTER_KEY := Json (JArr (map toJS (createdFromCsv H csv # ms))))))"
proof -
  from f obtain t n tm ps where v: "csvField H csv ''Type'' = Some t" "csvField H csv ''Name'' = Some n"
    "csvField H csv ''Team'' = Some tm" "csvField H csv ''POS'' = Some ps"
    by auto
  then have tx: "csvText H csv ''Type'' = t" "csvText H csv ''Name'' = n"
    "csvText H csv ''Team'' = tm" "csvText H csv ''POS'' = ps"
    by (simp_all add: csvText_def)
  let ?ty = "if toLowerCase t = ''pit'' then ''pit'' else ''hit''"
  have ty: "csvType H csv = ?ty" by (simp add: csvType_def tx)
  have key: "csvKey H csv = getPlayerKey H (JStr ?ty) (JStr n)"
    by (simp add: csvKey_def ty tx)
  show ?thesis
  proof (cases "find (\<lambda>r. playerId r = csvKey H csv) ms")
    case None
    have cr: "normalizeRosterPlayer H (JObj
           [(''id'', JStr (csvKey H csv)), (''name'', JStr n),
            (''type'', JStr (if ?ty = ''pit'' then ''pit'' else ''hit'')),
            (''team'', JStr tm), (''pos'', JStr ps),
            (''underContract'', JBool False), (''contractYear'', JInt 1),
            (''contractTotal'', JInt 1), (''price'', JInt 0)]) = Some (createdFromCsv H csv)"
      by (subst create_new) (simp_all add: createdFromCsv_def tx ty)
    show ?thesis
      using None cr
      by (simp add: addToRosterFromCsv_def g v findM_toJS key [symmetric] Let_def
          setRoster_roster [of "_ # _", simplified] del: map_map)
  next
    case (Some x)
    then have "x \<in> set ms" by (auto simp: find_Some_iff)
    with c have nx: "normalized x"
      by (auto simp: canonicalRoster_def canonical_def list_all_iff)
    have fl: "normalizeRosterPlayer H (JObj
           (setProp ''type'' (orElse (field (toJS x) ''type'') (JStr ?ty))
           (setProp ''pos'' (orElse (field (toJS x) ''pos'') (JStr ps))
           (setProp ''team'' (orElse (field (toJS x) ''team'') (JStr tm))
           (setProp ''name'' (orElse (field (toJS x) ''name'') (JStr n))
           (spread (toJS x) [])))))) = Some (fillBlanks H csv x)"
      by (simp add: fill_existing [OF nx] fillBlanks_def tx)
    show ?thesis
      using Some fl
      by (simp add: addToRosterFromCsv_def g v findM_toJS key [symmetric] Let_def replace_toJS
          setRoster_roster del: map_map)
  qed
qed


lemma addToRosterFromCsv_SomeD:
  assumes "addToRosterFromCsv H csv st = Some (p, st')"
  obtains ms s1 where "getRoster H st = Some (JArr (map toJS ms), s1)" "canonicalRoster H ms"
    "csvField H csv ''Type'' \<noteq> None" "csvField H csv ''Name'' \<noteq> None"
    "csvField H csv ''Team'' \<noteq> None" "csvField H csv ''POS'' \<noteq> None"
proof -
  from assms obtain roster s1 where g: "getRoster H st = Some (roster, s1)"
    by (auto simp: addToRosterFromCsv_def Option.bind_eq_Some_conv)
  from assms g have f: "csvField H csv ''Type'' \<noteq> None" "csvField H csv ''Name'' \<noteq> None"
    "csvField H csv ''Team'' \<noteq> None" "csvField H csv ''POS'' \<noteq> None"
    by (auto simp: addToRosterFromCsv_def Option.bind_eq_Some_conv Let_def)
  from assms g f obtain rs where "asArray roster = Some rs"
    by (auto simp: addToRosterFromCsv_def Option.bind_eq_Some_conv Let_def)
  then have "roster = JArr rs" by (cases roster) auto
  with g getRoster_records [of H st rs s1] obtain ms where
    "getRoster H st = Some (JArr (map toJS ms), s1)" "canonicalRoster H ms"
    by auto
  with f that show ?thesis by blast
qed

lemma csvText_trimmed: "trim (csvText H csv k) = csvText H csv k"
  by (auto simp: csvText_def csvField_def trim_def trim_idem [unfolded trim_def]
      split: option.splits)

lemma csvType_cases: "csvType H csv = ''hit'' \<or> csvType H csv = ''pit''"
  by (simp add: csvType_def)

lemma created_canonical: "canonical H (createdFromCsv H csv)"
  using csvType_cases [of H csv]
  by (auto simp: canonical_def normalized_def createdFromCsv_def csvKey_def csvText_trimmed)

lemma fill_canonical:
  assumes "typesApart H" and "canonical H x" and "playerId x = csvKey H csv"
  shows "canonical H (fillBlanks H csv x)"
proof (cases "name x = []")
  case False
  with assms(2) show ?thesis
    by (simp add: canonical_def normalized_def fillBlanks_def)
next
  case True
  from assms(2) have t: "playerType x = ''hit'' \<or> playerType x = ''pit''"
    and k: "playerId x = getPlayerKey H (JStr (playerType x)) (JStr (name x))"
    by (simp_all add: canonical_def normalized_def)
  from k assms(3) have "getPlayerKey H (JStr (playerType x)) (JStr (name x)) =
      getPlayerKey H (JStr (csvType H csv)) (JStr (csvText H csv ''Name''))"
    by (simp add: csvKey_def)
  with assms(1) t csvType_cases [of H csv] have "playerType x = csvType H csv"
    unfolding typesApart_def by metis
  with assms(2,3) True show ?thesis
    by (simp add: canonical_def normalized_def fillBlanks_def csvText_trimmed csvKey_def)
qed

lemma fill_id: "playerId (fillBlanks H csv x) = playerId x"
  by (simp add: fillBlanks_def)

lemma fill_fill: "fillBlanks H csv (fillBlanks H csv x) = fillBlanks H csv x"
  by (simp add: fillBlanks_def)

lemma fill_created: "fillBlanks H csv (createdFromCsv H csv) = createdFromCsv H csv"
  by (simp add: fillBlanks_def createdFromCsv_def)

lemma filter_other: "\<forall>r\<in>set xs. f r \<noteq> k \<Longrightarrow> filter (\<lambda>r. f r = k) xs = []"
  by (induction xs) auto

lemma replace_other: "\<forall>r\<in>set xs. f r \<noteq> k \<Longrightarrow> map (\<lambda>r. if f r = k then x else r) xs = xs"
  by (induction xs) auto

lemma find_other: "\<forall>r\<in>set xs. f r \<noteq> k \<Longrightarrow> find (\<lambda>r. f r = k) xs = None"
  by (induction xs) auto

lemma find_distinct:
  assumes "distinct (map f xs)" and "x \<in> set xs"
  shows "find (\<lambda>r. f r = f x) xs = Some x" and "length (filter (\<lambda>r. f r = f x) xs) = 1"
    and "map (\<lambda>r. if f r = f x then x else r) xs = xs"
  using assms
proof (induction xs)
  case Nil
  {
    case 1 then show ?case by simp
  next
    case 2 then show ?case by simp
  next
    case 3 then show ?case by simp
  }
next
  case (Cons y ys)
  {
    case 1
    with Cons.IH(1) show ?case by (auto simp: image_iff)
  next
    case 2
    show ?case
    proof (cases "y = x")
      case True
      with 2 have "\<forall>r\<in>set ys. f r \<noteq> f x" by (auto simp: image_iff)
      then have "filter (\<lambda>r. f r = f x) ys = []" by (rule filter_other)
      with True show ?thesis by simp
    next
      case False
      with 2 Cons.IH(2) show ?thesis by (auto simp: image_iff)
    qed
  next
    case 3
    show ?case
    proof (cases "y = x")
      case True
      with 3 have "\<forall>r\<in>set ys. f r \<noteq> f x" by (auto simp: image_iff)
      then have "map (\<lambda>r. if f r = f x then x else r) ys = ys" by (rule replace_other)
      with True show ?thesis by simp
    next
      case False
      with 3 Cons.IH(3) show ?thesis by (auto simp: image_iff)
    qed
  }
qed

lemma replace_ids: "map playerId (map (\<lambda>r. if playerId r = k then fillBlanks H csv x else r) ms)
    = map (\<lambda>r. if playerId r = k then playerId x else playerId r) ms"
  by (simp add: fill_id comp_def if_distrib [of playerId])


lemma toJS_inj: "toJS r = toJS r' \<Longrightarrow> r = r'"
  by (cases r, cases r') (simp add: toJS_def JInt_def)

lemma map_toJS_inj: "map toJS ms = map toJS ms' \<Longrightarrow> ms = ms'"
  by (rule map_injective) (auto simp: inj_on_def dest: toJS_inj)

lemma getRoster_canonical:
  assumes "getRoster H st = Some (JArr (map toJS ms), s1)"
  shows "canonicalRoster H ms"
  using getRoster_records [OF assms] by (auto dest: map_toJS_inj)

lemma addToRosterFromCsv_post:
  assumes ta: "typesApart H" and a: "addToRosterFromCsv H csv st = Some (p, st')"
  shows "\<exists>ms'. st' ROSTER_KEY = Json (JArr (map toJS ms')) \<and> canonicalRoster H ms' \<and>
           p \<in> set ms' \<and> playerId p = csvKey H csv \<and> fillBlanks H csv p = p"
  using a
proof (rule addToRosterFromCsv_SomeD)
  fix ms s1
  assume g: "getRoster H st = Some (JArr (map toJS ms), s1)" and c: "canonicalRoster H ms"
    and f: "csvField H csv ''Type'' \<noteq> None" "csvField H csv ''Name'' \<noteq> None"
           "csvField H csv ''Team'' \<noteq> None" "csvField H csv ''POS'' \<noteq> None"
  note eq = addToRosterFromCsv_eq [OF g c f]
  let ?k = "csvKey H csv"
  show ?thesis
  proof (cases "find (\<lambda>r. playerId r = ?k) ms")
    case None
    let ?ms = "createdFromCsv H csv # ms"
    from None have fresh: "\<forall>r\<in>set ms. playerId r \<noteq> ?k"
      by (simp add: find_None_iff)
    from a eq None have p: "p = createdFromCsv H csv"
      and st': "st' = s1(ROSTER_KEY := Json (JArr (map toJS ?ms)))"
      by auto
    have "canonicalRoster H ?ms"
      using c fresh created_canonical [of H csv]
      by (auto simp: canonicalRoster_def createdFromCsv_def)
    then show ?thesis
      unfolding p st' by (intro exI [of _ ?ms]) (simp add: fill_created, simp add: createdFromCsv_def)
  next
    case (Some x)
    then have x: "x \<in> set ms" "playerId x = ?k"
      by (auto simp: find_Some_iff)
    let ?ms = "map (\<lambda>r. if playerId r = ?k then fillBlanks H csv x else r) ms"
    from a eq Some have p: "p = fillBlanks H csv x"
      and st': "st' = s1(ROSTER_KEY := Json (JArr (map toJS ?ms)))"
      by auto
    from c x have cx: "canonical H x"
      by (auto simp: canonicalRoster_def list_all_iff)
    have cf: "canonical H (fillBlanks H csv x)"
      using ta cx x(2) by (rule fill_canonical)
    have ids: "map playerId ?ms = map playerId ms"
      using x(2) by (auto simp: fill_id)
    have "list_all (canonical H) ?ms"
      using c cf by (auto simp: canonicalRoster_def list_all_iff)
    with c ids have "canonicalRoster H ?ms"
      by (simp add: canonicalRoster_def del: map_map)
    moreover have "fillBlanks H csv x \<in> set ?ms"
      using x by (auto simp: image_iff)
    ultimately show ?thesis
      unfolding p st' by (intro exI [of _ ?ms]) (simp add: fill_fill fill_id x(2) del: map_map)
  qed
qed

lemma addToRosterFromCsv_again:
  assumes c: "canonicalRoster H ms" and s: "st ROSTER_KEY = Json (JArr (map toJS ms))"
    and p: "p \<in> set ms" "playerId p = csvKey H csv" "fillBlanks H csv p = p"
    and f: "csvField H csv ''Type'' \<noteq> None" "csvField H csv ''Name'' \<noteq> None"
           "csvField H csv ''Team'' \<noteq> None" "csvField H csv ''POS'' \<noteq> None"
  shows "addToRosterFromCsv H csv st = Some (p, st)"
proof -
  have g: "getRoster H st = Some (JArr (map toJS ms), st)"
    using c s by (rule getRoster_fixed)
  from c have d: "distinct (map playerId ms)" by (simp add: canonicalRoster_def)
  note fd = find_distinct [OF d p(1), unfolded p(2)]
  have t: "st(ROSTER_KEY := Json (JArr (map toJS ms))) = st"
    using s by (metis fun_upd_triv)
  have "addToRosterFromCsv H csv st = Some (fillBlanks H csv p,
      st(ROSTER_KEY := Json (JArr (map toJS
        (map (\<lambda>r. if playerId r = csvKey H csv then fillBlanks H csv p else r) ms)))))"
    by (simp add: addToRosterFromCsv_eq [OF g c f] fd(1) del: map_map)
  then show ?thesis
    unfolding p(3) fd(3) t .
qed

text \<open>
  C8. When \<^verbatim>\<open>addToRosterFromCsv(record)\<close> has returned the entry \<open>p1\<close>: if the roster read
  at the start had an entry \<open>e\<close> with the canonical id of the record, \<open>p1\<close> is \<open>e\<close> with only
  its blank name, team and position filled from the record, and its contract fields
  (\<^verbatim>\<open>underContract\<close>, \<^verbatim>\<open>contractYear\<close>, \<^verbatim>\<open>contractTotal\<close>, \<^verbatim>\<open>price\<close>) are those of \<open>e\<close>. And
  (for a key function that keeps hitters and pitchers apart) a second call with the same
  record returns the same entry and leaves the storage as it is, with exactly one entry of
  that id in the stored roster.
\<close>

theorem addToRosterFromCsv_twice:
  assumes "addToRosterFromCsv H csv st = Some (p1, st1)"
  shows "(\<forall>ms s0 e. getRoster H st = Some (JArr (map toJS ms), s0) \<longrightarrow>
            e \<in> set ms \<longrightarrow> playerId e = csvKey H csv \<longrightarrow>
            p1 = fillBlanks H csv e \<and> underContract p1 = underContract e \<and>
            contractYear p1 = contractYear e \<and> contractTotal p1 = contractTotal e \<and>
            price p1 = price e) \<and>
         (typesApart H \<longrightarrow>
            addToRosterFromCsv H csv st1 = Some (p1, st1) \<and>
            (\<exists>ms. st1 ROSTER_KEY = Json (JArr (map toJS ms)) \<and> p1 \<in> set ms \<and>
               playerId p1 = csvKey H csv \<and>
               length (filter (\<lambda>r. playerId r = csvKey H csv) ms) = 1))"
proof (intro conjI allI impI)
  fix ms s0 e
  assume g: "getRoster H st = Some (JArr (map toJS ms), s0)" and e: "e \<in> set ms"
    and k: "playerId e = csvKey H csv"
  have c: "canonicalRoster H ms" using g by (rule getRoster_canonical)
  then have d: "distinct (map playerId ms)" by (simp add: canonicalRoster_def)
  from assms have f: "csvField H csv ''Type'' \<noteq> None" "csvField H csv ''Name'' \<noteq> None"
           "csvField H csv ''Team'' \<noteq> None" "csvField H csv ''POS'' \<noteq> None"
    by (auto elim: addToRosterFromCsv_SomeD)
  from assms show "p1 = fillBlanks H csv e"
    by (simp add: addToRosterFromCsv_eq [OF g c f] find_distinct(1) [OF d e, unfolded k])
  then show "underContract p1 = underContract e" "contractYear p1 = contractYear e"
    "contractTotal p1 = contractTotal e" "price p1 = price e"
    by (simp_all add: fillBlanks_def)
next
  assume ta: "typesApart H"
  from assms have f: "csvField H csv ''Type'' \<noteq> None" "csvField H csv ''Name'' \<noteq> None"
           "csvField H csv ''Team'' \<noteq> None" "csvField H csv ''POS'' \<noteq> None"
    by (auto elim: addToRosterFromCsv_SomeD)
  from addToRosterFromCsv_post [OF ta assms] obtain ms where
    s: "st1 ROSTER_KEY = Json (JArr (map toJS ms))" and c: "canonicalRoster H ms"
    and p: "p1 \<in> set ms" "playerId p1 = csvKey H csv" "fillBlanks H csv p1 = p1"
    by blast
  show "addToRosterFromCsv H csv st1 = Some (p1, st1)"
    using c s p f by (rule addToRosterFromCsv_again)
  from c have d: "distinct (map playerId ms)" by (simp add: canonicalRoster_def)
  from find_distinct(2) [OF d p(1)] s p
  show "\<exists>ms. st1 ROSTER_KEY = Json (JArr (map toJS ms)) \<and> p1 \<in> set ms \<and>
               playerId p1 = csvKey H csv \<and>
               length (filter (\<lambda>r. playerId r = csvKey H csv) ms) = 1"
    by auto
qed


theorem addToRosterFromCsv_twice_witness:
  "typesApart exampleHost \<and>
   (\<exists>st1 s0.
      addToRosterFromCsv exampleHost
        (JObj [(''Name'', JStr ''Juan Soto''), (''Type'', JStr ''hit''),
               (''Team'', JStr ''NYY''), (''POS'', JStr ''OF'')])
        ((\<lambda>_. Empty)(ROSTER_KEY := Json (JArr
           [JObj [(''id'', JStr ''hit|juan-soto''), (''name'', JStr ''Juan Soto''),
                  (''type'', JStr ''hit''), (''underContract'', JBool True),
                  (''contractYear'', JInt 2), (''contractTotal'', JInt 3),
                  (''price'', JInt 50)]])))
      = Some (\<lparr> playerId = ''hit|juan-soto'', name = ''Juan Soto'', playerType = ''hit'',
                 team = ''NYY'', pos = ''OF'', underContract = True, contractYear = 2,
                 contractTotal = 3, price = 50 \<rparr>, st1) \<and>
      getRoster exampleHost
        ((\<lambda>_. Empty)(ROSTER_KEY := Json (JArr
           [JObj [(''id'', JStr ''hit|juan-soto''), (''name'', JStr ''Juan Soto''),
                  (''type'', JStr ''hit''), (''underContract'', JBool True),
                  (''contractYear'', JInt 2), (''contractTotal'', JInt 3),
                  (''price'', JInt 50)]])))
      = Some (JArr (map toJS
               [\<lparr> playerId = ''hit|juan-soto'', name = ''Juan Soto'', playerType = ''hit'',
                  team = [], pos = [], underContract = True, contractYear = 2,
                  contractTotal = 3, price = 50 \<rparr>]), s0) \<and>
      csvKey exampleHost
        (JObj [(''Name'', JStr ''Juan Soto''), (''Type'', JStr ''hit''),
               (''Team'', JStr ''NYY''), (''POS'', JStr ''OF'')]) = ''hit|juan-soto'' \<and>
      addToRosterFromCsv exampleHost
        (JObj [(''Name'', JStr ''Juan Soto''), (''Type'', JStr ''hit''),
               (''Team'', JStr ''NYY''), (''POS'', JStr ''OF'')]) st1
      = Some (\<lparr> playerId = ''hit|juan-soto'', name = ''Juan Soto'', playerType = ''hit'',
                 team = ''NYY'', pos = ''OF'', underContract = True, contractYear = 2,
                 contractTotal = 3, price = 50 \<rparr>, st1))"
proof -
  let ?csv = "JObj [(''Name'', JStr ''Juan Soto''), (''Type'', JStr ''hit''),
               (''Team'', JStr ''NYY''), (''POS'', JStr ''OF'')]"
  let ?st = "(\<lambda>_. Empty)(ROSTER_KEY := Json (JArr
           [JObj [(''id'', JStr ''hit|juan-soto''), (''name'', JStr ''Juan Soto''),
                  (''type'', JStr ''hit''), (''underContract'', JBool True),
                  (''contractYear'', JInt 2), (''contractTotal'', JInt 3),
                  (''price'', JInt 50)]]))"
  let ?e = "\<lparr> playerId = ''hit|juan-soto'', name = ''Juan Soto'', playerType = ''hit'',
                  team = [], pos = [], underContract = True, contractYear = 2,
                  contractTotal = 3, price = 50 \<rparr>"
  let ?p = "\<lparr> playerId = ''hit|juan-soto'', name = ''Juan Soto'', playerType = ''hit'',
                 team = ''NYY'', pos = ''OF'', underContract = True, contractYear = 2,
                 contractTotal = 3, price = 50 \<rparr>"
  have ta: "typesApart exampleHost"
    by (simp add: typesApart_def exampleHost_def specPlayerKey_def textOf_def)
  have "map_option fst (addToRosterFromCsv exampleHost ?csv ?st) = Some ?p"
    by code_simp
  then obtain st1 where a: "addToRosterFromCsv exampleHost ?csv ?st = Some (?p, st1)"
    by (cases "addToRosterFromCsv exampleHost ?csv ?st") auto
  have "map_option fst (getRoster exampleHost ?st) = Some (JArr (map toJS [?e]))"
    by code_simp
  then obtain s0 where g: "getRoster exampleHost ?st = Some (JArr (map toJS [?e]), s0)"
    by (cases "getRoster exampleHost ?st") auto
  have k: "csvKey exampleHost ?csv = ''hit|juan-soto''"
    by code_simp
  from addToRosterFromCsv_twice [OF a] ta a g k show ?thesis
    by blast
qed

section \<open>Updating an auction target\<close>

lemma setSettings_other:
  assumes "setSettings H n st = Some st'" and "k \<noteq> ''hag_settings''"
  shows "st' k = st k"
  using assms by (auto simp: setSettings_def Let_def save_def split: option.splits)

lemma recalc_targets_kept:
  assumes "recalcBudgetRemaining H st = Some (b, st')"
  shows "st' AUCTION_KEY = st AUCTION_KEY"
  using assms
proof (rule recalc_SomeD)
  fix settings ps st1
  assume g: "getRoster H st = Some (JArr ps, st1)"
    and s: "setSettings H (JObj (setProp ''budget_remaining'' (JInt (remaining b))
        (spread (JObj settings) []))) st1 = Some st'"
  from setSettings_other [OF s] getRoster_other_slot [OF g storage_keys_differ(1)]
  show ?thesis by (simp add: AUCTION_KEY_def)
qed

lemma saveAuctionTargets_list:
  "saveAuctionTargets (JArr xs) st = st(AUCTION_KEY := Json (JArr (map jsonOf xs)))"
  by (simp add: saveAuctionTargets_def save_def)

lemma field_jsonOf_JObj:
  "field (jsonOf (JObj kvs)) k =
     (if field (JObj kvs) k = JUndef then JUndef else jsonOf (field (JObj kvs) k))"
  unfolding field_def jsonOf_lookup by (auto split: option.splits)

lemma strictEq_undef: "strictEq v JUndef \<longleftrightarrow> v = JUndef"
  by (cases v) auto

lemma patchedNumber_SomeD:
  assumes "patchedNumber H cur patch k = Some v"
  shows "if optProp patch k = JUndef then v = field cur k
         else \<exists>n. Number_js H (field patch k) = Some n \<and> v = JNum n"
  using assms by (auto simp: patchedNumber_def strictEq_undef split: if_splits)

lemma patchTarget_SomeD:
  assumes "patchTarget H cur patch = Some new"
  shows "\<exists>kvs. new = JObj kvs"
    and "map_of (ownProps patch) k = Some v \<Longrightarrow>
           k \<notin> {''plan'', ''max'', ''enforce''} \<Longrightarrow> field new k = v"
    and "k \<in> {''plan'', ''max'', ''enforce''} \<Longrightarrow>
           (if optProp patch k = JUndef then field new k = field cur k
            else \<exists>n. Number_js H (field patch k) = Some n \<and> field new k = JNum n)"
proof -
  from assms obtain plan mx enforce where
    p: "patchedNumber H cur patch ''plan'' = Some plan"
    and m: "patchedNumber H cur patch ''max'' = Some mx"
    and e: "patchedNumber H cur patch ''enforce'' = Some enforce"
    and new: "new = JObj (setProp ''enforce'' enforce (setProp ''max'' mx (setProp ''plan'' plan
               (spread patch (spread cur [])))))"
    by (auto simp: patchTarget_def Option.bind_eq_Some_conv)
  from new show "\<exists>kvs. new = JObj kvs" by blast
  show "field new k = v"
    if "map_of (ownProps patch) k = Some v" "k \<notin> {''plan'', ''max'', ''enforce''}"
    using that by (simp add: new field_def map_of_setProp map_of_spread)
  show "if optProp patch k = JUndef then field new k = field cur k
            else \<exists>n. Number_js H (field patch k) = Some n \<and> field new k = JNum n"
    if "k \<in> {''plan'', ''max'', ''enforce''}"
    using that patchedNumber_SomeD [OF p] patchedNumber_SomeD [OF m] patchedNumber_SomeD [OF e]
    by (auto simp: new field_setProp)
qed

lemma findIndexM_bound: "findIndexM P xs = Some (Some i) \<Longrightarrow> i < length xs"
proof (induction xs arbitrary: i)
  case Nil
  then show ?case by simp
next
  case (Cons x xs)
  then show ?case
    by (auto split: option.splits if_splits)
qed

lemma updateRosterPlayer_id:
  assumes "updateRosterPlayer H idk patch st = Some (Some u, st')"
  shows "playerId u = idk"
proof -
  from assms obtain obj where n: "normalizeRosterPlayer H (JObj (setProp ''id'' (JStr idk) obj)) = Some u"
    by (auto simp: updateRosterPlayer_def Option.bind_eq_Some_conv Let_def split: option.splits)
  from normalizeRosterPlayer_SomeD(5) [OF n] show ?thesis
    by (simp add: field_setProp)
qed

text \<open>
  C10. When \<^verbatim>\<open>updateAuctionTarget(id, patch)\<close> finds the target at index \<open>i\<close> and returns,
  the object \<open>new\<close> it puts there has every own property of the patch other than
  \<^verbatim>\<open>plan\<close>, \<^verbatim>\<open>max\<close> and \<^verbatim>\<open>enforce\<close> with the value of the patch, so an \<^verbatim>\<open>id\<close> or a
  \<^verbatim>\<open>player_key\<close> in the patch replaces that of the target; the stored list holds the JSON
  form of \<open>new\<close> at \<open>i\<close>. Each of \<^verbatim>\<open>plan\<close>, \<^verbatim>\<open>max\<close> and \<^verbatim>\<open>enforce\<close> is the number
  \<^verbatim>\<open>Number(patch.k)\<close> when the patch defines it and keeps the value of the target otherwise.
  \<^verbatim>\<open>updateRosterPlayer\<close>, in contrast, always returns an entry with the id it was called with.
\<close>

theorem updateAuctionTarget_copies_patch:
  assumes "updateAuctionTarget H idv patch st = Some st'"
    and "loadAuctionTargets st = JArr xs"
    and "findIndexM (idIs idv) xs = Some (Some i)"
  shows "\<exists>new. patchTarget H (xs ! i) patch = Some new \<and>
      loadAuctionTargets st' = JArr (map jsonOf (xs[i := new])) \<and> i < length xs \<and>
      (\<forall>k v. map_of (ownProps patch) k = Some v \<longrightarrow> k \<notin> {''plan'', ''max'', ''enforce''} \<longrightarrow>
         field new k = v \<and>
         field (map jsonOf (xs[i := new]) ! i) k = (if v = JUndef then JUndef else jsonOf v)) \<and>
      (\<forall>k\<in>{''plan'', ''max'', ''enforce''}.
         if optProp patch k = JUndef then field new k = field (xs ! i) k
         else \<exists>n. Number_js H (field patch k) = Some n \<and> field new k = JNum n) \<and>
      (\<forall>idk p s u s'. updateRosterPlayer H idk p s = Some (Some u, s') \<longrightarrow> playerId u = idk)"
proof -
  from assms obtain new b where new: "patchTarget H (xs ! i) patch = Some new"
    and r: "recalcBudgetRemaining H (saveAuctionTargets (JArr (xs[i := new])) st) = Some (b, st')"
    by (auto simp: updateAuctionTarget_def Option.bind_eq_Some_conv Let_def)
  have i: "i < length xs" using assms(3) by (rule findIndexM_bound)
  have l: "loadAuctionTargets st' = JArr (map jsonOf (xs[i := new]))"
    using recalc_targets_kept [OF r]
    by (simp add: loadAuctionTargets_def saveAuctionTargets_list)
  note d = patchTarget_SomeD [OF new]
  from d(1) obtain kvs where kvs: "new = JObj kvs" by blast
  note other = d(2) and nums = d(3)
  have st: "map jsonOf (xs[i := new]) ! i = jsonOf new"
    using i by simp
  have stored: "field (map jsonOf (xs[i := new]) ! i) k = (if v = JUndef then JUndef else jsonOf v)"
    if "map_of (ownProps patch) k = Some v" "k \<notin> {''plan'', ''max'', ''enforce''}" for k v
  proof -
    have "field (jsonOf new) k = (if field new k = JUndef then JUndef else jsonOf (field new k))"
      unfolding kvs by (rule field_jsonOf_JObj)
    with other [OF that] show ?thesis
      by (simp only: st)
  qed
  have 1: "\<forall>k v. map_of (ownProps patch) k = Some v \<longrightarrow> k \<notin> {''plan'', ''max'', ''enforce''} \<longrightarrow>
         field new k = v \<and>
         field (map jsonOf (xs[i := new]) ! i) k = (if v = JUndef then JUndef else jsonOf v)"
    using other stored by blast
  have 2: "\<forall>k\<in>{''plan'', ''max'', ''enforce''}.
         if optProp patch k = JUndef then field new k = field (xs ! i) k
         else \<exists>n. Number_js H (field patch k) = Some n \<and> field new k = JNum n"
    using nums by blast
  have 3: "\<forall>idk p s u s'. updateRosterPlayer H idk p s = Some (Some u, s') \<longrightarrow> playerId u = idk"
    using updateRosterPlayer_id by blast
  from new l i 1 2 3 show ?thesis
    by (intro exI [of _ new] conjI)
qed


theorem updateAuctionTarget_copies_patch_witness:
  "\<exists>st' u s'.
     updateAuctionTarget exampleHost (JStr ''t1'')
       (JObj [(''id'', JStr ''t2''), (''player_key'', JStr ''pit|b''), (''plan'', JStr ''7'')])
       (emptyStorage(AUCTION_KEY := Json (JArr
          [JObj [(''id'', JStr ''t1''), (''name'', JStr ''A''),
                 (''player_key'', JStr ''hit|a''), (''plan'', JInt 5)]]))) = Some st' \<and>
     loadAuctionTargets (emptyStorage(AUCTION_KEY := Json (JArr
          [JObj [(''id'', JStr ''t1''), (''name'', JStr ''A''),
                 (''player_key'', JStr ''hit|a''), (''plan'', JInt 5)]]))) =
       JArr [JObj [(''id'', JStr ''t1''), (''name'', JStr ''A''),
                 (''player_key'', JStr ''hit|a''), (''plan'', JInt 5)]] \<and>
     findIndexM (idIs (JStr ''t1''))
       [JObj [(''id'', JStr ''t1''), (''name'', JStr ''A''),
                 (''player_key'', JStr ''hit|a''), (''plan'', JInt 5)]] = Some (Some 0) \<and>
     loadAuctionTargets st' =
       JArr [JObj [(''id'', JStr ''t2''), (''name'', JStr ''A''),
                 (''player_key'', JStr ''pit|b''), (''plan'', JInt 7)]] \<and>
     updateRosterPlayer exampleHost ''hit|a'' (JObj [(''id'', JStr ''other''), (''price'', JInt 9)])
       (emptyStorage(ROSTER_KEY := Json (JArr
          [JObj [(''id'', JStr ''hit|a''), (''name'', JStr ''A''), (''type'', JStr ''hit'')]])))
       = Some (Some u, s') \<and>
     playerId u = ''hit|a'' \<and> price u = 9"
proof -
  let ?x = "JObj [(''id'', JStr ''t1''), (''name'', JStr ''A''),
                 (''player_key'', JStr ''hit|a''), (''plan'', JInt 5)]"
  let ?st = "emptyStorage(AUCTION_KEY := Json (JArr [?x]))"
  let ?patch = "JObj [(''id'', JStr ''t2''), (''player_key'', JStr ''pit|b''), (''plan'', JStr ''7'')]"
  let ?y = "JObj [(''id'', JStr ''t2''), (''name'', JStr ''A''),
                 (''player_key'', JStr ''pit|b''), (''plan'', JInt 7)]"
  let ?sr = "emptyStorage(ROSTER_KEY := Json (JArr
          [JObj [(''id'', JStr ''hit|a''), (''name'', JStr ''A''), (''type'', JStr ''hit'')]]))"
  let ?rp = "JObj [(''id'', JStr ''other''), (''price'', JInt 9)]"
  have "map_option loadAuctionTargets (updateAuctionTarget exampleHost (JStr ''t1'') ?patch ?st)
          = Some (JArr [?y])"
    by code_simp
  then obtain st' where u: "updateAuctionTarget exampleHost (JStr ''t1'') ?patch ?st = Some st'"
    and l': "loadAuctionTargets st' = JArr [?y]"
    by (cases "updateAuctionTarget exampleHost (JStr ''t1'') ?patch ?st") auto
  have l: "loadAuctionTargets ?st = JArr [?x]"
    by code_simp
  have f: "findIndexM (idIs (JStr ''t1'')) [?x] = Some (Some 0)"
    by code_simp
  have "map_option (\<lambda>(r, s). map_option (\<lambda>u. (playerId u, price u)) r)
          (updateRosterPlayer exampleHost ''hit|a'' ?rp ?sr) = Some (Some (''hit|a'', 9))"
    by code_simp
  then obtain u' s' where r: "updateRosterPlayer exampleHost ''hit|a'' ?rp ?sr = Some (Some u', s')"
    and pu: "playerId u' = ''hit|a''" "price u' = 9"
    by (cases "updateRosterPlayer exampleHost ''hit|a'' ?rp ?sr") auto
  from updateAuctionTarget_copies_patch [OF u l f] u l f l' r pu show ?thesis
    by blast
qed

section \<open>Adding an auction target\<close>

lemma addAuctionTarget_SomeD:
  assumes "addAuctionTarget H fresh target st = Some (c, st')"
  shows "field c ''id'' =
      (case map_of (ownProps (orElse target (JObj []))) ''id'' of
         None \<Rightarrow> JStr fresh | Some v \<Rightarrow> v)"
    and "\<exists>xs b. loadAuctionTargets st = JArr xs \<and>
      recalcBudgetRemaining H (saveAuctionTargets (JArr (c # xs)) st) = Some (b, st')"
proof -
  from assms obtain xs where xs: "asArray (loadAuctionTargets st) = Some xs"
    by (auto simp: addAuctionTarget_def Option.bind_eq_Some_conv Let_def)
  then have l: "loadAuctionTargets st = JArr xs"
    by (cases "loadAuctionTargets st") auto
  from assms show "field c ''id'' =
      (case map_of (ownProps (orElse target (JObj []))) ''id'' of
         None \<Rightarrow> JStr fresh | Some v \<Rightarrow> v)"
    unfolding l
    by (auto simp: addAuctionTarget_def Option.bind_eq_Some_conv Let_def field_def
        map_of_setProp map_of_spread split: option.splits)
  from assms show "\<exists>xs b. loadAuctionTargets st = JArr xs \<and>
      recalcBudgetRemaining H (saveAuctionTargets (JArr (c # xs)) st) = Some (b, st')"
    by (auto simp: addAuctionTarget_def Option.bind_eq_Some_conv Let_def l)
qed

text \<open>
  C9, as amended. The record \<^verbatim>\<open>addAuctionTarget(target)\<close> returns carries the generated id
  when the target has no own property \<^verbatim>\<open>id\<close> (or is a falsy value), and the \<^verbatim>\<open>id\<close> of the
  target when it has one; the JSON form of the record is the first element of the
  stored list.
\<close>

theorem addAuctionTarget_id:
  assumes "addAuctionTarget H fresh target st = Some (c, st')"
  shows "(map_of (ownProps (orElse target (JObj []))) ''id'' = None \<longrightarrow>
            field c ''id'' = JStr fresh) \<and>
         (\<forall>v. map_of (ownProps (orElse target (JObj []))) ''id'' = Some v \<longrightarrow>
            field c ''id'' = v) \<and>
         (\<exists>ys. loadAuctionTargets st' = JArr (jsonOf c # ys))"
proof -
  note d = addAuctionTarget_SomeD [OF assms]
  from d(2) obtain xs b where
    r: "recalcBudgetRemaining H (saveAuctionTargets (JArr (c # xs)) st) = Some (b, st')"
    by blast
  from recalc_targets_kept [OF r] have "loadAuctionTargets st' = JArr (jsonOf c # map jsonOf xs)"
    by (simp add: loadAuctionTargets_def saveAuctionTargets_list del: jsonOf.simps)
  with d(1) show ?thesis
    by auto
qed

theorem addAuctionTarget_id_witness:
  "\<exists>c st'. addAuctionTarget exampleHost ''fresh'' (JObj [(''name'', JStr ''B''), (''plan'', JInt 5)])
       emptyStorage = Some (c, st') \<and>
     map_of (ownProps (orElse (JObj [(''name'', JStr ''B''), (''plan'', JInt 5)]) (JObj []))) ''id''
       = None \<and>
     field c ''id'' = JStr ''fresh'' \<and>
     loadAuctionTargets st' = JArr [jsonOf c]"
proof -
  let ?t = "JObj [(''name'', JStr ''B''), (''plan'', JInt 5)]"
  have "map_option (\<lambda>(c, s). loadAuctionTargets s = JArr [jsonOf c])
          (addAuctionTarget exampleHost ''fresh'' ?t emptyStorage) = Some True"
    by code_simp
  then obtain c st' where a: "addAuctionTarget exampleHost ''fresh'' ?t emptyStorage = Some (c, st')"
    and l: "loadAuctionTargets st' = JArr [jsonOf c]"
    by (cases "addAuctionTarget exampleHost ''fresh'' ?t emptyStorage") auto
  have n: "map_of (ownProps (orElse ?t (JObj []))) ''id'' = None"
    by (simp add: orElse_def)
  from addAuctionTarget_id [OF a] a l n show ?thesis
    by blast
qed

text \<open>
  C9, as stated, fails: the target is spread after the generated id, so a target with an
  \<^verbatim>\<open>id\<close> of its own keeps it.
\<close>

theorem addAuctionTarget_id_counterexample:
  "map_option fst (addAuctionTarget exampleHost ''fresh''
       (JObj [(''id'', JStr ''mine''), (''name'', JStr ''A'')]) emptyStorage) =
     Some (JObj [(''id'', JStr ''mine''), (''name'', JStr ''A''), (''type'', JStr ''hit''),
       (''pos'', JStr []), (''tier'', JStr ''B''), (''plan'', JNum (Fin 0)),
       (''max'', JNum (Fin 0)), (''enforce'', JNum (Fin 0)), (''notes'', JStr []),
       (''player_key'', JStr ''hit|a''), (''val'', JUndef), (''shadow'', JUndef),
       (''adj'', JUndef), (''delta'', JUndef)])"
  by code_simp

section \<open>Merging duplicate roster entries\<close>

text \<open>
  C4. Two entries of the same name and type are merged by \<^verbatim>\<open>getRoster\<close>. The first has a
  team and a position and no price; the second has neither and is under contract at 50.
  The merged entry has the blank team and position of the second entry, not those of the
  first, and the price 0 that normalization gave the first entry, not the 50 of the
  second.
\<close>

theorem getRoster_merge_later_wins:
  "map_option fst (getRoster exampleHost (emptyStorage(ROSTER_KEY := Json (JArr
      [JObj [(''name'', JStr ''A''), (''type'', JStr ''hit''), (''team'', JStr ''NYY''),
             (''pos'', JStr ''OF'')],
       JObj [(''name'', JStr ''A''), (''type'', JStr ''hit''), (''underContract'', JBool True),
             (''price'', JInt 50)]])))) =
   Some (JArr [toJS \<lparr> playerId = ''hit|a'', name = ''A'', playerType = ''hit'', team = [],
      pos = [], underContract = True, contractYear = 1, contractTotal = 1, price = 0 \<rparr>])"
  by code_simp


section \<open>Stored content of the wrong shape\<close>

text \<open>
  C3, as stated, fails: \<^verbatim>\<open>getRoster\<close> throws on a roster array that holds \<^verbatim>\<open>null\<close>, and
  \<^verbatim>\<open>recalcBudgetRemaining\<close> throws when the roster slot holds an object or the settings
  slot holds \<^verbatim>\<open>null\<close>.
\<close>

theorem no_throw_counterexample:
  "getRoster exampleHost (emptyStorage(ROSTER_KEY := Json (JArr [JNull]))) = None \<and>
   recalcBudgetRemaining exampleHost
     (emptyStorage(ROSTER_KEY := Json (JObj [(''name'', JStr ''A'')]))) = None \<and>
   recalcBudgetRemaining exampleHost (emptyStorage(''hag_settings'' := Json JNull)) = None"
  by code_simp

lemma normalizeCategoryWeights_total:
  assumes "\<forall>k\<in>set weightKeys. plain (weightInput partial k)"
  shows "\<exists>w. normalizeCategoryWeights H partial = Some w"
proof -
  let ?obj = "migrateWeights (if truthy partial \<and> typeofObject partial then spread partial [] else [])"
  have "\<forall>k\<in>set weightKeys. Number_js H (field (JObj ?obj) k) \<noteq> None"
    using assms by (simp add: field_weight_source Number_js_plain)
  then have "weightsLoop H ?obj weightKeys DEFAULT_WEIGHTS \<noteq> None"
    by (rule weightsLoop_total)
  then show ?thesis
    by (auto simp: normalizeCategoryWeights_def spread_defaults keys_defaults)
qed

lemma normalized_weights_numbers:
  assumes "normalizeCategoryWeights H partial = Some w" and "k \<in> set weightKeys"
  shows "\<exists>n. field (JObj w) k = JNum n"
proof -
  let ?obj = "migrateWeights (if truthy partial \<and> typeofObject partial then spread partial [] else [])"
  from assms(1) have loop: "weightsLoop H ?obj weightKeys DEFAULT_WEIGHTS = Some w"
    by (simp add: normalizeCategoryWeights_def spread_defaults keys_defaults)
  have sub: "set weightKeys \<subseteq> fst ` set DEFAULT_WEIGHTS"
    using keys_defaults by (metis set_map subset_refl)
  note L = weightsLoop_Some [OF loop sub]
  from L assms(2) obtain n where n: "Number_js H (field (JObj ?obj) k) = Some n" by auto
  from L assms(2) have "map_of w k = Some (weightOf H ?obj k)" by simp
  then have "field (JObj w) k = weightOf H ?obj k" by (simp add: field_def)
  with n field_defaults [OF assms(2)] show ?thesis
    by (auto simp: weightOf_def)
qed

lemma weights_renormalize:
  assumes "normalizeCategoryWeights H partial = Some w"
  shows "\<exists>w'. normalizeCategoryWeights H (JObj w) = Some w'"
proof (rule normalizeCategoryWeights_total, rule ballI)
  fix k assume k: "k \<in> set weightKeys"
  have sb: "''SB'' \<in> set weightKeys" by (simp add: weightKeys_def)
  from normalized_weights_numbers [OF assms sb] normalized_weights_numbers [OF assms k]
  show "plain (weightInput (JObj w) k)"
    by (auto simp: weightInput_def)
qed

lemma settingsInput_default: "settingsInput defaultSettings"
  by code_simp

lemma field_ownProps: "field (JObj (ownProps v)) k = field v k"
  by (simp add: field_def)

lemma getSettings_Some:
  assumes "getSettings H st = Some s"
  shows "\<exists>w. (case load st ''hag_settings'' defaultSettings of
                  JObj kvs \<Rightarrow> True | JArr xs \<Rightarrow> True | _ \<Rightarrow> False) \<and>
           normalizeCategoryWeights H
             (field (load st ''hag_settings'' defaultSettings) ''category_weights'') = Some w \<and>
           s = setProp ''category_weights'' (JObj w)
                 (ownProps (load st ''hag_settings'' defaultSettings))"
  using assms
  by (cases "load st ''hag_settings'' defaultSettings")
    (auto simp: getSettings_def Let_def getProp_def split: option.splits)

lemma getSettings_total:
  assumes "settingsInput (load st ''hag_settings'' defaultSettings)"
  shows "\<exists>s w. getSettings H st = Some s \<and> field (JObj s) ''category_weights'' = JObj w \<and>
           (\<exists>w'. normalizeCategoryWeights H (JObj w) = Some w') \<and>
           plain (field (JObj s) ''budget_total'')"
proof -
  let ?v = "load st ''hag_settings'' defaultSettings"
  from assms have sh: "case ?v of JObj kvs \<Rightarrow> True | JArr xs \<Rightarrow> True | _ \<Rightarrow> False"
    and bt: "plain (field ?v ''budget_total'')"
    and cw: "\<forall>k\<in>set weightKeys. plain (weightInput (field ?v ''category_weights'') k)"
    by (simp_all add: settingsInput_def list_all_iff)
  from normalizeCategoryWeights_total [OF cw] obtain w where
    w: "normalizeCategoryWeights H (field ?v ''category_weights'') = Some w"
    by blast
  have g: "getSettings H st = Some (setProp ''category_weights'' (JObj w) (ownProps ?v))"
    using w sh by (cases ?v) (simp_all add: getSettings_def Let_def getProp_def)
  moreover have "plain (field (JObj (setProp ''category_weights'' (JObj w) (ownProps ?v)))
      ''budget_total'')"
    using bt by (simp add: field_setProp field_ownProps)
  ultimately show ?thesis
    using weights_renormalize [OF w] by (auto simp: field_setProp simp del: plain.simps)
qed

lemma getSettings_slot:
  "st1 ''hag_settings'' = st ''hag_settings'' \<Longrightarrow> getSettings H st1 = getSettings H st"
  by (simp add: getSettings_def load_def)

lemma setSettings_total:
  assumes "getSettings H st = Some s" and "field (JObj s) ''category_weights'' = JObj w"
    and "normalizeCategoryWeights H (JObj w) = Some w'"
    and "st1 ''hag_settings'' = st ''hag_settings''"
  shows "\<exists>st2. setSettings H
           (JObj (setProp ''budget_remaining'' v (spread (JObj s) []))) st1 = Some st2"
proof -
  have g: "getSettings H st1 = Some s"
    using getSettings_slot [of st1 st H, OF assms(4)] assms(1) by simp
  have a: "field (JObj (spread (JObj s) [])) ''category_weights'' = JObj w"
    by (simp only: field_spread_empty assms(2))
  have b: "field (JObj (setProp ''budget_remaining'' v (spread (JObj s) []))) ''category_weights''
            = JObj w"
    by (simp add: field_setProp a)
  have "field (JObj (spread (JObj (setProp ''budget_remaining'' v (spread (JObj s) [])))
              (spread (JObj s) []))) ''category_weights'' = JObj w"
    using assms(2) field_absent [of "''category_weights''" "JObj s"]
    by (auto simp: field_spread b)
  then have "normalizeCategoryWeights H
       (field (JObj (spread (JObj (setProp ''budget_remaining'' v (spread (JObj s) [])))
              (spread (JObj s) []))) ''category_weights'') = Some w'"
    using assms(3) by (simp only:)
  then show ?thesis
    unfolding setSettings_def g orElse_def Let_def by simp
qed

lemma migrateStep_total:
  assumes "canonicalMap H byId" and "rosterInput raw"
  shows "\<exists>b. migrateStep H byId raw = Some b \<and> canonicalMap H b"
proof -
  from normalizeRosterPlayer_total [OF assms(2), of H] obtain r where
    r: "normalizeRosterPlayer H raw = Some r" by auto
  let ?ty = "if toLowerCase (trim (playerType r)) = ''pit'' then ''pit'' else ''hit''"
  let ?k = "getPlayerKey H (JStr ?ty) (JStr (trim (name r)))"
  have "\<exists>b. migrateStep H byId raw = Some b"
  proof (cases "map_of byId ?k")
    case None
    with r show ?thesis by (simp add: migrateStep_def Let_def)
  next
    case (Some prev)
    then have "(?k, prev) \<in> set byId" by (rule map_of_SomeD)
    with assms(1) have "normalized prev"
      by (auto simp: canonicalMap_def list_all_iff canonical_def)
    with r Some show ?thesis
      by (simp add: migrateStep_def Let_def mergePlayers_eq)
  qed
  with assms(1) show ?thesis
    by (auto intro: migrateStep_canonical)
qed

lemma foldM_total_inv:
  assumes "P a" and "\<And>a x. P a \<Longrightarrow> x \<in> set xs \<Longrightarrow> \<exists>a'. f a x = Some a' \<and> P a'"
  shows "\<exists>a'. foldM f xs a = Some a'"
  using assms
proof (induction xs arbitrary: a)
  case Nil
  then show ?case by simp
next
  case (Cons x xs)
  from Cons.prems(2) [OF Cons.prems(1), of x] obtain a' where a': "f a x = Some a'" "P a'"
    by auto
  from Cons.IH [OF a'(2)] Cons.prems(2) obtain b where "foldM f xs a' = Some b"
    by auto
  with a' show ?case by simp
qed

lemma getRoster_total:
  assumes "rosterShape (load st ROSTER_KEY (JArr []))"
  shows "\<exists>v st1. getRoster H st = Some (v, st1)"
proof (cases "\<exists>xs. load st ROSTER_KEY (JArr []) = JArr xs")
  case False
  then have "getRoster H st = Some (load st ROSTER_KEY (JArr []), st)"
    by (auto simp: getRoster_def Let_def split: jsval.splits list.splits)
  then show ?thesis by blast
next
  case True
  then obtain xs where l: "load st ROSTER_KEY (JArr []) = JArr xs" by blast
  with assms have xs: "list_all rosterInput xs"
    by (simp add: rosterShape_def)
  show ?thesis
  proof (cases xs)
    case Nil
    with l have "getRoster H st = Some (JArr [], st)"
      by (simp add: getRoster_def)
    then show ?thesis by blast
  next
    case (Cons y ys)
    have step: "\<exists>a'. migrateStep H a x = Some a' \<and> canonicalMap H a'"
      if "canonicalMap H a" "x \<in> set xs" for a x
      using that xs by (intro migrateStep_total) (simp_all add: list_all_iff)
    have "canonicalMap H []" by (simp add: canonicalMap_def)
    then have "\<exists>byId. foldM (migrateStep H) xs [] = Some byId"
      using step by (rule foldM_total_inv)
    then obtain byId where "foldM (migrateStep H) (y # ys) [] = Some byId"
      by (auto simp: Cons)
    with l have "getRoster H st = Some (JArr (map toJS (map snd byId)),
        if rosterChanged (map snd byId) (y # ys)
        then setRoster (JArr (map toJS (map snd byId))) st else st)"
      by (simp add: getRoster_def Let_def Cons del: foldM.simps map_map)
    then show ?thesis by blast
  qed
qed

lemma plain_orElse: "plain a \<Longrightarrow> plain b \<Longrightarrow> plain (orElse a b)"
  by (simp add: orElse_def)

lemma plannedStep_total:
  assumes "targetInput t"
  shows "plannedStep H keys a t \<noteq> None"
proof -
  from assms have n: "\<not> isNullish t" and p: "plain (field t ''plan'')"
    and k: "plain (field t ''player_key'')"
    by (simp_all add: targetInput_def)
  obtain pl where pl: "toInt H (nullish (field t ''plan'') (JInt 0)) 0 = Some pl"
    using toInt_plain [OF plain_nullish [OF p, of "JInt 0"], of H 0] by (auto simp: JInt_def)
  obtain s where s: "String_js H (orElse (field t ''player_key'') (JStr [])) = Some s"
    using String_js_plain [OF plain_orElse [OF k, of "JStr []"], of H] by auto
  show ?thesis
    by (simp add: plannedStep_def getProp_def n pl s Let_def)
qed

lemma foldM_total:
  "\<forall>x\<in>set xs. \<forall>a. f a x \<noteq> None \<Longrightarrow> \<exists>b. foldM f xs a = Some b"
  by (induction xs arbitrary: a) (auto split: option.splits)

subsection \<open>What makes a conversion throw\<close>

lemma those_Some_each: "those (map f xs) \<noteq> None \<Longrightarrow> x \<in> set xs \<Longrightarrow> f x \<noteq> None"
  by (induction xs) (auto split: option.splits)

lemma String_js_defined: "String_js H v \<noteq> None \<Longrightarrow> plain v"
proof (induction H v rule: String_js.induct)
  case (6 H xs)
  from "6.prems" have t: "those (map (\<lambda>x. if isNullish x then Some [] else String_js H x) xs) \<noteq> None"
    by auto
  have "plain x" if x: "x \<in> set xs" for x
  proof (cases "isNullish x")
    case True
    then show ?thesis by (cases x) simp_all
  next
    case False
    with those_Some_each [OF t x] have "String_js H x \<noteq> None" by simp
    with "6.IH" [OF x False] show ?thesis by simp
  qed
  then show ?case by (simp add: list_all_iff)
next
  case (7 H kvs)
  then show ?case by (simp split: if_splits)
qed simp_all

lemma Number_js_defined: "Number_js H v \<noteq> None \<Longrightarrow> plain v"
  using String_js_defined [of H v] by (cases v) auto

lemma toInt_defined: "toInt H v d \<noteq> None \<Longrightarrow> plain v"
  using Number_js_defined [of H v] by (auto simp: toInt_def)

lemma clampInt_defined: "clampInt H v a b \<noteq> None \<Longrightarrow> plain v"
  using toInt_defined [of H v a] by (auto simp: clampInt_def)

lemma plain_nullishD: "plain (nullish v d) \<Longrightarrow> plain v"
  by (cases v) (simp_all add: nullish_def)

lemma plain_orElseD: "plain (orElse a b) \<Longrightarrow> plain a"
  by (cases a) (simp_all add: orElse_def split: if_splits)

lemma clampInt_nullish_defined: "clampInt H (nullish v d) a b = Some y \<Longrightarrow> plain v"
  using clampInt_defined [of H "nullish v d" a b] plain_nullishD [of v d] by simp

lemma toInt_nullish_defined: "toInt H (nullish v d) a = Some y \<Longrightarrow> plain v"
  using toInt_defined [of H "nullish v d" a] plain_nullishD [of v d] by simp

lemma String_js_nullish_defined: "String_js H (nullish v d) = Some y \<Longrightarrow> plain v"
  using String_js_defined [of H "nullish v d"] plain_nullishD [of v d] by simp

lemma String_js_orElse_defined: "String_js H (orElse v d) = Some y \<Longrightarrow> plain v"
  using String_js_defined [of H "orElse v d"] plain_orElseD [of v d] by simp

lemma normalizeRosterPlayer_defined:
  assumes "normalizeRosterPlayer H p \<noteq> None"
  shows "rosterInput p"
proof -
  from assms obtain r where r: "normalizeRosterPlayer H p = Some r" by auto
  note d = normalizeRosterPlayer_SomeD [OF r]
  from d(2) have 1: "plain (field p ''contractTotal'')"
    by (rule clampInt_nullish_defined)
  from d(3) have 2: "plain (field p ''contractYear'')"
    by (rule clampInt_nullish_defined)
  from d(4) obtain pr where "toInt H (nullish (field p ''price'') (JInt 0)) 0 = Some pr"
    by blast
  then have 3: "plain (field p ''price'')"
    by (rule toInt_nullish_defined)
  from d(5) have 4: "plain (field p ''id'')"
    using String_js_defined [of H "field p ''id''"] by simp
  from d(6) have 5: "plain (field p ''name'')"
    by (rule String_js_nullish_defined)
  from d(7) have 6: "plain (field p ''team'')"
    by (rule String_js_nullish_defined)
  from d(8) have 7: "plain (field p ''pos'')"
    by (rule String_js_nullish_defined)
  from d(1) 1 2 3 4 5 6 7 show ?thesis
    by (simp add: rosterInput_def)
qed

lemma migrateStep_defined:
  assumes "migrateStep H a x \<noteq> None"
  shows "rosterInput x"
proof -
  from assms have "normalizeRosterPlayer H x \<noteq> None"
    by (cases "normalizeRosterPlayer H x") (simp_all add: migrateStep_def)
  then show ?thesis by (rule normalizeRosterPlayer_defined)
qed

lemma foldM_Some_each:
  "foldM f xs a = Some b \<Longrightarrow> x \<in> set xs \<Longrightarrow> \<exists>a'. f a' x \<noteq> None"
proof (induction xs arbitrary: a)
  case Nil
  then show ?case by simp
next
  case (Cons y ys)
  from Cons.prems(1) obtain a1 where 1: "f a y = Some a1" and 2: "foldM f ys a1 = Some b"
    by (auto split: option.splits)
  show ?case
  proof (cases "x = y")
    case True
    with 1 show ?thesis by auto
  next
    case False
    with Cons.prems(2) have "x \<in> set ys" by simp
    from Cons.IH [OF 2 this] show ?thesis .
  qed
qed

lemma getRoster_defined:
  assumes "getRoster H st = Some (v, st1)"
  shows "rosterShape (load st ROSTER_KEY (JArr []))"
proof (cases "\<exists>xs. load st ROSTER_KEY (JArr []) = JArr xs")
  case False
  then show ?thesis
    by (auto simp: rosterShape_def split: jsval.splits)
next
  case True
  then obtain xs where l: "load st ROSTER_KEY (JArr []) = JArr xs" by blast
  show ?thesis
  proof (cases xs)
    case Nil
    with l show ?thesis by (simp add: rosterShape_def)
  next
    case (Cons y ys)
    from getRoster_array [OF assms l [unfolded Cons]] obtain byId where
      f: "foldM (migrateStep H) xs [] = Some byId"
      unfolding Cons by blast
    have "rosterInput x" if "x \<in> set xs" for x
    proof -
      from foldM_Some_each [OF f that] obtain a' where "migrateStep H a' x \<noteq> None"
        by blast
      then show ?thesis by (rule migrateStep_defined)
    qed
    then show ?thesis
      by (simp add: rosterShape_def l list_all_iff)
  qed
qed

lemma getRoster_array_result:
  assumes "getRoster H st = Some (JArr ps, st1)"
  shows "\<exists>xs. load st ROSTER_KEY (JArr []) = JArr xs"
proof (rule ccontr)
  assume n: "\<not> ?thesis"
  then have "getRoster H st = Some (load st ROSTER_KEY (JArr []), st)"
    by (auto simp: getRoster_def Let_def split: jsval.splits list.splits)
  with assms have "load st ROSTER_KEY (JArr []) = JArr ps" by auto
  with n show False by blast
qed

lemma normalizeCategoryWeights_defined:
  assumes "normalizeCategoryWeights H partial = Some w" and "k \<in> set weightKeys"
  shows "plain (weightInput partial k)"
proof -
  let ?obj = "migrateWeights (if truthy partial \<and> typeofObject partial then spread partial [] else [])"
  from assms(1) have loop: "weightsLoop H ?obj weightKeys DEFAULT_WEIGHTS = Some w"
    by (simp add: normalizeCategoryWeights_def spread_defaults keys_defaults)
  have sub: "set weightKeys \<subseteq> fst ` set DEFAULT_WEIGHTS"
    using keys_defaults by (metis set_map subset_refl)
  from weightsLoop_Some [OF loop sub] assms(2)
  have "Number_js H (field (JObj ?obj) k) \<noteq> None" by blast
  then have "plain (field (JObj ?obj) k)" by (rule Number_js_defined)
  then show ?thesis
    by (simp only: field_weight_source [OF assms(2)])
qed

lemma plannedStep_defined:
  assumes "plannedStep H keys a t \<noteq> None"
  shows "targetInput t"
proof -
  from assms obtain b where b: "plannedStep H keys a t = Some b" by auto
  then have n: "\<not> isNullish t"
    by (cases "isNullish t") (simp_all add: plannedStep_def getProp_def)
  with b obtain pl s where
    pl: "toInt H (nullish (field t ''plan'') (JInt 0)) 0 = Some pl"
    and s: "String_js H (orElse (field t ''player_key'') (JStr [])) = Some s"
    by (auto simp: plannedStep_def getProp_def Option.bind_eq_Some_conv Let_def)
  from pl have "plain (field t ''plan'')"
    by (rule toInt_nullish_defined)
  moreover from s have "plain (field t ''player_key'')"
    by (rule String_js_orElse_defined)
  ultimately show ?thesis
    using n by (simp add: targetInput_def)
qed

lemma recalc_defined:
  assumes "recalcBudgetRemaining H st = Some (b, st')"
  shows "settingsInput (load st ''hag_settings'' defaultSettings) \<and>
         arrayOf rosterInput (load st ROSTER_KEY (JArr [])) \<and>
         arrayOf targetInput (loadAuctionTargets st)"
  using assms
proof (rule recalc_SomeD)
  fix settings ps st1 cs ts pls bt
  assume s: "getSettings H st = Some settings"
    and g: "getRoster H st = Some (JArr ps, st1)"
    and ts: "loadAuctionTargets st1 = JArr ts"
    and pls: "foldM (plannedStep H (keeperKeys H ps)) ts 0 = Some pls"
    and bt: "toInt H (nullish (field (JObj settings) ''budget_total'') (JInt 0)) 0 = Some bt"
  let ?v = "load st ''hag_settings'' defaultSettings"
  from getSettings_Some [OF s] obtain w where
    sh: "case ?v of JObj kvs \<Rightarrow> True | JArr xs \<Rightarrow> True | _ \<Rightarrow> False"
    and w: "normalizeCategoryWeights H (field ?v ''category_weights'') = Some w"
    and se: "settings = setProp ''category_weights'' (JObj w) (ownProps ?v)"
    by blast
  from bt have "plain (field (JObj settings) ''budget_total'')"
    by (rule toInt_nullish_defined)
  then have pb: "plain (field ?v ''budget_total'')"
    by (simp add: se field_setProp field_ownProps)
  have 1: "settingsInput ?v"
    using sh pb normalizeCategoryWeights_defined [OF w]
    by (simp add: settingsInput_def list_all_iff)
  from getRoster_array_result [OF g] obtain xs where l: "load st ROSTER_KEY (JArr []) = JArr xs"
    by blast
  from getRoster_defined [OF g] have 2: "arrayOf rosterInput (load st ROSTER_KEY (JArr []))"
    by (simp add: l rosterShape_def arrayOf_def)
  have l': "loadAuctionTargets st = JArr ts"
    using ts getRoster_other_slot [OF g storage_keys_differ(1)] by (simp add: loadAuctionTargets_def)
  have "targetInput t" if "t \<in> set ts" for t
  proof -
    from foldM_Some_each [OF pls that] obtain a' where
      "plannedStep H (keeperKeys H ps) a' t \<noteq> None"
      by blast
    then show ?thesis by (rule plannedStep_defined)
  qed
  then have 3: "arrayOf targetInput (loadAuctionTargets st)"
    by (simp add: l' arrayOf_def list_all_iff)
  from 1 2 3 show ?thesis by simp
qed

lemma recalc_total:
  assumes a: "settingsInput (load st ''hag_settings'' defaultSettings)"
    and b: "arrayOf rosterInput (load st ROSTER_KEY (JArr []))"
    and c: "arrayOf targetInput (loadAuctionTargets st)"
  shows "\<exists>b st'. recalcBudgetRemaining H st = Some (b, st')"
proof -
  from getSettings_total [of st H, OF a] obtain s w w' where
    s: "getSettings H st = Some s" and cw: "field (JObj s) ''category_weights'' = JObj w"
    and w': "normalizeCategoryWeights H (JObj w) = Some w'"
    and bt: "plain (field (JObj s) ''budget_total'')"
    by blast
  from b have "rosterShape (load st ROSTER_KEY (JArr []))"
    by (auto simp: arrayOf_def rosterShape_def split: jsval.splits)
  from getRoster_total [of st H, OF this] obtain v st1 where g0: "getRoster H st = Some (v, st1)"
    by blast
  from b obtain xs where l: "load st ROSTER_KEY (JArr []) = JArr xs"
    by (auto simp: arrayOf_def split: jsval.splits)
  have "\<exists>ps. v = JArr ps"
    using g0 l by (cases rule: getRoster_cases) auto
  then obtain ps where g1: "getRoster H st = Some (JArr ps, st1)"
    using g0 by blast
  from getRoster_records [OF g1] obtain ms where ps: "ps = map toJS ms"
    and cr: "canonicalRoster H ms" by blast
  note g = g1 [unfolded ps]
  from cr have "list_all normalized ms"
    by (simp add: canonicalRoster_def canonical_def list_all_iff)
  from contract_sum [OF this, of H 0] obtain cs where
    cs: "foldM (contractStep H) (map toJS ms) 0 = Some cs"
    by simp
  from c obtain ts where ts: "loadAuctionTargets st = JArr ts" and ti: "list_all targetInput ts"
    by (auto simp: arrayOf_def split: jsval.splits)
  have ts1: "loadAuctionTargets st1 = JArr ts"
    using ts getRoster_other_slot [OF g storage_keys_differ(1)] by (simp add: loadAuctionTargets_def)
  have "\<exists>pls. foldM (plannedStep H (keeperKeys H (map toJS ms))) ts 0 = Some pls"
    using ti by (intro foldM_total) (auto simp: list_all_iff plannedStep_total)
  then obtain pls where pls: "foldM (plannedStep H (keeperKeys H (map toJS ms))) ts 0 = Some pls"
    by blast
  obtain bti where bti: "toInt H (nullish (field (JObj s) ''budget_total'') (JInt 0)) 0 = Some bti"
    using toInt_plain [OF plain_nullish [OF bt, of "JInt 0"], of H 0] by (auto simp: JInt_def)
  have slot: "st1 ''hag_settings'' = st ''hag_settings''"
    using getRoster_other_slot [OF g storage_keys_differ(2)] .
  from setSettings_total [of H st s w w' st1, OF s cw w' slot] obtain st2 where
    "setSettings H (JObj (setProp ''budget_remaining''
        (JInt (max 0 (max 0 bti - (cs + pls)))) (spread (JObj s) []))) st1 = Some st2"
    by blast
  then show ?thesis
    by (simp add: recalcBudgetRemaining_def s g cs ts1 pls bti Let_def del: map_map)
qed

text \<open>
  C3, as amended. A slot that is empty or does not parse reads as its fallback: the default
  settings, the empty array. \<^verbatim>\<open>getRoster\<close> returns exactly when the roster read from
  storage is not an array, or is an array whose every element is neither \<^verbatim>\<open>null\<close> nor
  \<^verbatim>\<open>undefined\<close> and has plain values under \<^verbatim>\<open>contractTotal\<close>, \<^verbatim>\<open>contractYear\<close>,
  \<^verbatim>\<open>price\<close>, \<^verbatim>\<open>id\<close>, \<^verbatim>\<open>name\<close>, \<^verbatim>\<open>team\<close> and \<^verbatim>\<open>pos\<close>; the other two slots do not
  matter. \<^verbatim>\<open>recalcBudgetRemaining\<close> returns exactly when the settings read from storage are
  an object or an array with a plain \<^verbatim>\<open>budget_total\<close> and a plain input for each of the 14
  weights, the roster is an array of elements as above, and the targets are an array of
  elements that are neither \<^verbatim>\<open>null\<close> nor \<^verbatim>\<open>undefined\<close> and have a plain \<^verbatim>\<open>plan\<close> and
  \<^verbatim>\<open>player_key\<close>. A value is plain unless it is an object with an own property
  \<^verbatim>\<open>toString\<close>, or an array that holds a value that is not plain. Here \<^verbatim>\<open>getPlayerKey\<close>
  returns a string and a write to the storage succeeds, as in the model throughout.
\<close>

theorem returns_exactly:
  "(getRoster H st \<noteq> None \<longleftrightarrow> rosterShape (load st ROSTER_KEY (JArr []))) \<and>
   (recalcBudgetRemaining H st \<noteq> None \<longleftrightarrow>
      settingsInput (load st ''hag_settings'' defaultSettings) \<and>
      arrayOf rosterInput (load st ROSTER_KEY (JArr [])) \<and>
      arrayOf targetInput (loadAuctionTargets st))"
proof (rule conjI)
  show "getRoster H st \<noteq> None \<longleftrightarrow> rosterShape (load st ROSTER_KEY (JArr []))"
  proof
    assume "getRoster H st \<noteq> None"
    then obtain v st1 where "getRoster H st = Some (v, st1)" by auto
    then show "rosterShape (load st ROSTER_KEY (JArr []))" by (rule getRoster_defined)
  next
    assume "rosterShape (load st ROSTER_KEY (JArr []))"
    from getRoster_total [of st H, OF this] show "getRoster H st \<noteq> None" by auto
  qed
  show "recalcBudgetRemaining H st \<noteq> None \<longleftrightarrow>
      settingsInput (load st ''hag_settings'' defaultSettings) \<and>
      arrayOf rosterInput (load st ROSTER_KEY (JArr [])) \<and>
      arrayOf targetInput (loadAuctionTargets st)"
  proof
    assume "recalcBudgetRemaining H st \<noteq> None"
    then obtain b st' where "recalcBudgetRemaining H st = Some (b, st')" by auto
    then show "settingsInput (load st ''hag_settings'' defaultSettings) \<and>
        arrayOf rosterInput (load st ROSTER_KEY (JArr [])) \<and>
        arrayOf targetInput (loadAuctionTargets st)"
      by (rule recalc_defined)
  next
    assume a: "settingsInput (load st ''hag_settings'' defaultSettings) \<and>
        arrayOf rosterInput (load st ROSTER_KEY (JArr [])) \<and>
        arrayOf targetInput (loadAuctionTargets st)"
    have "\<exists>b st'. recalcBudgetRemaining H st = Some (b, st')"
      by (rule recalc_total) (simp_all only: a)
    then show "recalcBudgetRemaining H st \<noteq> None" by auto
  qed
qed

theorem returns_exactly_witness:
  "rosterShape (load (emptyStorage(ROSTER_KEY := Json (JObj [(''name'', JStr ''A'')])))
      ROSTER_KEY (JArr [])) \<and>
   getRoster exampleHost (emptyStorage(ROSTER_KEY := Json (JObj [(''name'', JStr ''A'')])))
     \<noteq> None \<and>
   settingsInput (load (emptyStorage(''hag_settings'' := Garbled,
      ROSTER_KEY := Json (JArr [JObj [(''name'', JStr ''A''), (''price'', JStr ''12'')],
                                JStr ''junk'']),
      AUCTION_KEY := Json (JArr [JObj [(''plan'', JStr ''a lot'')]])))
      ''hag_settings'' defaultSettings) \<and>
   arrayOf rosterInput (load (emptyStorage(''hag_settings'' := Garbled,
      ROSTER_KEY := Json (JArr [JObj [(''name'', JStr ''A''), (''price'', JStr ''12'')],
                                JStr ''junk'']),
      AUCTION_KEY := Json (JArr [JObj [(''plan'', JStr ''a lot'')]])))
      ROSTER_KEY (JArr [])) \<and>
   arrayOf targetInput (loadAuctionTargets (emptyStorage(''hag_settings'' := Garbled,
      ROSTER_KEY := Json (JArr [JObj [(''name'', JStr ''A''), (''price'', JStr ''12'')],
                                JStr ''junk'']),
      AUCTION_KEY := Json (JArr [JObj [(''plan'', JStr ''a lot'')]])))) \<and>
   recalcBudgetRemaining exampleHost (emptyStorage(''hag_settings'' := Garbled,
      ROSTER_KEY := Json (JArr [JObj [(''name'', JStr ''A''), (''price'', JStr ''12'')],
                                JStr ''junk'']),
      AUCTION_KEY := Json (JArr [JObj [(''plan'', JStr ''a lot'')]]))) \<noteq> None \<and>
   \<not> rosterShape (load (emptyStorage(ROSTER_KEY := Json (JArr
      [JObj [(''id'', JStr ''x''), (''name'', JArr [JObj [(''toString'', JInt 1)]])]])))
      ROSTER_KEY (JArr [])) \<and>
   getRoster exampleHost (emptyStorage(ROSTER_KEY := Json (JArr
      [JObj [(''id'', JStr ''x''), (''name'', JArr [JObj [(''toString'', JInt 1)]])]]))) = None"
proof -
  let ?s1 = "emptyStorage(ROSTER_KEY := Json (JObj [(''name'', JStr ''A'')]))"
  let ?s2 = "emptyStorage(''hag_settings'' := Garbled,
      ROSTER_KEY := Json (JArr [JObj [(''name'', JStr ''A''), (''price'', JStr ''12'')],
                                JStr ''junk'']),
      AUCTION_KEY := Json (JArr [JObj [(''plan'', JStr ''a lot'')]]))"
  let ?s3 = "emptyStorage(ROSTER_KEY := Json (JArr
      [JObj [(''id'', JStr ''x''), (''name'', JArr [JObj [(''toString'', JInt 1)]])]]))"
  have 1: "rosterShape (load ?s1 ROSTER_KEY (JArr []))"
    by code_simp
  have 2: "settingsInput (load ?s2 ''hag_settings'' defaultSettings)"
    by code_simp
  have 3: "arrayOf rosterInput (load ?s2 ROSTER_KEY (JArr []))"
    by code_simp
  have 4: "arrayOf targetInput (loadAuctionTargets ?s2)"
    by code_simp
  have 5: "\<not> rosterShape (load ?s3 ROSTER_KEY (JArr []))"
    by code_simp
  from returns_exactly [of exampleHost ?s1]
  have "getRoster exampleHost ?s1 \<noteq> None \<longleftrightarrow> rosterShape (load ?s1 ROSTER_KEY (JArr []))"
    by (rule conjunct1)
  from this 1 have a: "getRoster exampleHost ?s1 \<noteq> None"
    by (rule iffD2)
  from 2 3 4 have 6: "settingsInput (load ?s2 ''hag_settings'' defaultSettings) \<and>
      arrayOf rosterInput (load ?s2 ROSTER_KEY (JArr [])) \<and>
      arrayOf targetInput (loadAuctionTargets ?s2)"
    by (intro conjI)
  from returns_exactly [of exampleHost ?s2]
  have "recalcBudgetRemaining exampleHost ?s2 \<noteq> None \<longleftrightarrow>
      settingsInput (load ?s2 ''hag_settings'' defaultSettings) \<and>
      arrayOf rosterInput (load ?s2 ROSTER_KEY (JArr [])) \<and>
      arrayOf targetInput (loadAuctionTargets ?s2)"
    by (rule conjunct2)
  from this 6 have b: "recalcBudgetRemaining exampleHost ?s2 \<noteq> None"
    by (rule iffD2)
  from returns_exactly [of exampleHost ?s3]
  have i: "getRoster exampleHost ?s3 \<noteq> None \<longleftrightarrow> rosterShape (load ?s3 ROSTER_KEY (JArr []))"
    by (rule conjunct1)
  have c: "getRoster exampleHost ?s3 = None"
  proof (rule ccontr)
    assume "getRoster exampleHost ?s3 \<noteq> None"
    with i have "rosterShape (load ?s3 ROSTER_KEY (JArr []))"
      by (rule iffD1)
    with 5 show False
      by (rule notE)
  qed
  from 1 a 2 3 4 b 5 c show ?thesis
    by (intro conjI)
qed

end
